theory Spec2Isabelle
  imports Complex_Main "HOL-Library.Sublist"
begin

text \<open>
  The three programs of the documentation generator: the File Writer
  (\<^verbatim>\<open>write-files.js\<close>), which applies a set of file changes below the working directory;
  the Prompt Invoker, which sends one prompt to a generative model; and the Commit Replay
  Driver, a shell script that replays the commits of a base branch one per run onto a
  tracking branch of generated commits. Each is a function here, from what it reads (its
  input, the file system or repository, the answers of the tools and services it calls)
  to what it leaves behind (its exit code, its output, the new file system or repository).
\<close>

section \<open>JavaScript values\<close>

text \<open>
  The two Node programs of the repository read structured documents: \<^verbatim>\<open>write-files.js\<close>
  reads the result of \<^verbatim>\<open>JSON.parse\<close>, the prompt invoker the result of \<^verbatim>\<open>yaml.load\<close>.
  Both results are JavaScript values. A string is a list of characters; an object is the
  list of its own properties in document order (a later duplicate key overrides an earlier
  one, as in \<^verbatim>\<open>JSON.parse\<close>). Infinite numbers are not represented: like every non-zero
  number they are truthy and are not strings, which is all the programs look at.
\<close>

datatype jsval =
    JUndefined
  | JNull
  | JBool bool
  | JNumber rat
  | JNaN
  | JString string
  | JArray "jsval list"
  | JObject "(string \<times> jsval) list"

text \<open>
  An exception carries a message. \<open>Thrown\<close> is an \<^verbatim>\<open>Error\<close> that the program raises itself,
  with its exact message; \<open>Runtime\<close> is an exception raised by the runtime or a library
  (\<^verbatim>\<open>JSON.parse\<close>, \<^verbatim>\<open>path\<close>, \<^verbatim>\<open>fs\<close>, a property read on \<^verbatim>\<open>null\<close>), named by its error code.
\<close>

datatype js_error = Thrown string | Runtime string

fun message :: "js_error \<Rightarrow> string" where
  "message (Thrown m) = m"
| "message (Runtime c) = c"

text \<open>Truthiness, as tested by \<^verbatim>\<open>!v\<close> and \<^verbatim>\<open>if (v)\<close>.\<close>

fun truthy :: "jsval \<Rightarrow> bool" where
  "truthy JUndefined = False"
| "truthy JNull = False"
| "truthy (JBool b) = b"
| "truthy (JNumber r) = (r \<noteq> 0)"
| "truthy JNaN = False"
| "truthy (JString s) = (s \<noteq> [])"
| "truthy (JArray xs) = True"
| "truthy (JObject kvs) = True"

text \<open>
  The property read \<^verbatim>\<open>v.name\<close>, for the names the programs read (\<^verbatim>\<open>files\<close>,
  \<^verbatim>\<open>filename\<close>, \<^verbatim>\<open>new_content\<close>, \<^verbatim>\<open>model\<close>, \<^verbatim>\<open>generationConfig\<close>,
  \<^verbatim>\<open>systemInstruction\<close>): it throws a TypeError on \<^verbatim>\<open>undefined\<close> and \<^verbatim>\<open>null\<close>, gives the
  own property of an object and \<^verbatim>\<open>undefined\<close> where there is none.
\<close>

fun get_prop :: "jsval \<Rightarrow> string \<Rightarrow> js_error + jsval" where
  "get_prop JUndefined name = Inl (Runtime ''TypeError'')"
| "get_prop JNull name = Inl (Runtime ''TypeError'')"
| "get_prop (JObject kvs) name =
     Inr (case map_of (rev kvs) name of None \<Rightarrow> JUndefined | Some v \<Rightarrow> v)"
| "get_prop v name = Inr JUndefined"

section \<open>Node's POSIX path functions\<close>

text \<open>
  \<^verbatim>\<open>path.resolve\<close> prepends its arguments from right to left, skipping empty ones, until
  the path built is absolute, falling back on the process's working directory; then it
  normalises: empty and \<^verbatim>\<open>.\<close> segments are dropped, \<^verbatim>\<open>..\<close> removes the segment before
  it, and at the root \<^verbatim>\<open>..\<close> is dropped (kept, for a relative path).
\<close>

fun split_path :: "string \<Rightarrow> string list" where
  "split_path [] = [[]]"
| "split_path (c # cs) =
     (if c = CHR ''/'' then [] # split_path cs
      else (case split_path cs of [] \<Rightarrow> [[c]] | s # ss \<Rightarrow> (c # s) # ss))"

fun join_path :: "string list \<Rightarrow> string" where
  "join_path [] = []"
| "join_path [s] = s"
| "join_path (s # t # ss) = s @ ''/'' @ join_path (t # ss)"

definition normalize_step :: "bool \<Rightarrow> string list \<Rightarrow> string \<Rightarrow> string list" where
  "normalize_step allowAboveRoot res seg =
     (if seg = [] \<or> seg = ''.'' then res
      else if seg = ''..'' then
        (if res \<noteq> [] \<and> last res \<noteq> ''..'' then butlast res
         else if allowAboveRoot then res @ [''..'']
         else res)
      else res @ [seg])"

definition normalizeString :: "string \<Rightarrow> bool \<Rightarrow> string" where
  "normalizeString path allowAboveRoot =
     join_path (foldl (normalize_step allowAboveRoot) [] (split_path path))"

fun resolve_loop :: "string list \<Rightarrow> string \<Rightarrow> string \<times> bool" where
  "resolve_loop [] resolvedPath = (resolvedPath, False)"
| "resolve_loop (p # ps) resolvedPath =
     (if p = [] then resolve_loop ps resolvedPath
      else if hd p = CHR ''/'' then (p @ ''/'' @ resolvedPath, True)
      else resolve_loop ps (p @ ''/'' @ resolvedPath))"

text \<open>\<open>path_resolve cwd args\<close> is \<^verbatim>\<open>path.resolve(...args)\<close> in a process whose working
  directory is \<open>cwd\<close>.\<close>

definition path_resolve :: "string \<Rightarrow> string list \<Rightarrow> string" where
  "path_resolve cwd args =
     (case resolve_loop (rev args @ [cwd]) [] of
        (resolvedPath, resolvedAbsolute) \<Rightarrow>
          (let n = normalizeString resolvedPath (\<not> resolvedAbsolute)
           in if resolvedAbsolute then ''/'' @ n
              else if n \<noteq> [] then n else ''.''))"

text \<open>
  \<^verbatim>\<open>path.dirname\<close>: trailing separators are skipped, then the last segment; what is left
  up to (not including) the separator before that segment is the directory.
\<close>

definition path_dirname :: "string \<Rightarrow> string" where
  "path_dirname path =
     (if path = [] then ''.''
      else
        (let hasRoot = (hd path = CHR ''/'');
             r = dropWhile (\<lambda>c. c \<noteq> CHR ''/'')
                   (dropWhile (\<lambda>c. c = CHR ''/'') (rev (tl path)));
             end = length r
         in if r = [] then (if hasRoot then ''/'' else ''.'')
            else if hasRoot \<and> end = 1 then ''//''
            else take end path))"

text \<open>
  A path lies inside a directory when the directory's segments are the first segments of
  the path: the directory itself, or something below it.
\<close>

definition path_segments :: "string \<Rightarrow> string list" where
  "path_segments p = filter (\<lambda>s. s \<noteq> []) (split_path p)"

definition inside_dir :: "string \<Rightarrow> string \<Rightarrow> bool" where
  "inside_dir dir p = prefix (path_segments dir) (path_segments p)"

section \<open>The file system\<close>

text \<open>
  The file system the File Writer acts on: a map from path to node. Permissions and
  symbolic links are not modelled; the calls fail where POSIX says they do on the kind of
  node they find.
\<close>

datatype node = File string | Dir

type_synonym filesystem = "string \<rightharpoonup> node"

definition existsSync :: "filesystem \<Rightarrow> string \<Rightarrow> bool" where
  "existsSync fs p = (fs p \<noteq> None)"

definition unlinkSync :: "filesystem \<Rightarrow> string \<Rightarrow> js_error + filesystem" where
  "unlinkSync fs p =
     (case fs p of
        None \<Rightarrow> Inl (Runtime ''ENOENT'')
      | Some Dir \<Rightarrow> Inl (Runtime ''EISDIR'')
      | Some (File c) \<Rightarrow> Inr (fs(p := None)))"

text \<open>The directories on the way to \<open>p\<close>, outermost first, \<open>p\<close> itself last.\<close>

definition dir_chain :: "string \<Rightarrow> string list" where
  "dir_chain p =
     (let segs = filter (\<lambda>s. s \<noteq> []) (split_path p);
          root = (if p \<noteq> [] \<and> hd p = CHR ''/'' then ''/'' else [])
      in (if root = [] then [] else [root]) @
         map (\<lambda>k. root @ join_path (take k segs)) [1 ..< Suc (length segs)])"

fun mkdir_chain :: "filesystem \<Rightarrow> string list \<Rightarrow> js_error + filesystem" where
  "mkdir_chain fs [] = Inr fs"
| "mkdir_chain fs (d # ds) =
     (case fs d of
        None \<Rightarrow> mkdir_chain (fs(d \<mapsto> Dir)) ds
      | Some Dir \<Rightarrow> mkdir_chain fs ds
      | Some (File c) \<Rightarrow> Inl (Runtime (if ds = [] then ''EEXIST'' else ''ENOTDIR'')))"

text \<open>\<^verbatim>\<open>fs.mkdirSync(dir, { recursive: true })\<close>\<close>

definition mkdirSync :: "filesystem \<Rightarrow> string \<Rightarrow> js_error + filesystem" where
  "mkdirSync fs dir = mkdir_chain fs (dir_chain dir)"

text \<open>
  \<^verbatim>\<open>fs.writeFileSync(path, data, 'utf-8')\<close>, as in Node 14 and later (the client library
  of the Prompt Invoker needs Node 18): the data is validated before the file is opened,
  and anything but a string (no buffer comes out of \<^verbatim>\<open>JSON.parse\<close>) is refused with
  \<^verbatim>\<open>ERR_INVALID_ARG_TYPE\<close>. The file is then opened for writing, which fails when its
  directory is missing or is a file, or when the path is a directory.
\<close>

definition writeFileSync :: "filesystem \<Rightarrow> string \<Rightarrow> jsval \<Rightarrow> js_error + filesystem" where
  "writeFileSync fs p data =
     (case data of
        JString s \<Rightarrow>
          (case fs (path_dirname p) of
             None \<Rightarrow> Inl (Runtime ''ENOENT'')
           | Some (File c) \<Rightarrow> Inl (Runtime ''ENOTDIR'')
           | Some Dir \<Rightarrow>
               (case fs p of
                  Some Dir \<Rightarrow> Inl (Runtime ''EISDIR'')
                | _ \<Rightarrow> Inr (fs(p \<mapsto> File s))))
      | _ \<Rightarrow> Inl (Runtime ''ERR_INVALID_ARG_TYPE''))"

section \<open>The File Writer (write-files.js)\<close>

record world =
  files :: filesystem
  stdout :: "string list"
  stderr :: "string list"

text \<open>
  The body of the \<^verbatim>\<open>forEach\<close> callback for one entry. The result is the exception
  thrown, if any, and the world as the entry leaves it.
\<close>

definition process_file :: "string \<Rightarrow> jsval \<Rightarrow> world \<Rightarrow> js_error option \<times> world" where
  "process_file currentDir file w =
     (case get_prop file ''filename'' of
        Inl e \<Rightarrow> (Some e, w)
      | Inr fname \<Rightarrow>
     (case fname of
        JString filename \<Rightarrow>
          (let filePath = path_resolve currentDir [currentDir, filename] in
           if \<not> prefix currentDir filePath then
             (Some (Thrown (''File path \"'' @ filename @ ''\" is outside the allowed directory.'')), w)
           else
             (case get_prop file ''new_content'' of
                Inl e \<Rightarrow> (Some e, w)
              | Inr new_content \<Rightarrow>
                  if new_content = JString [] then
                    (if existsSync (files w) filePath then
                       (case unlinkSync (files w) filePath of
                          Inl e \<Rightarrow> (Some e, w)
                        | Inr fs' \<Rightarrow>
                            (None, w\<lparr>files := fs',
                                     stdout := stdout w @ [''Deleted empty file: '' @ filename]\<rparr>))
                     else (None, w))
                  else
                    (case mkdirSync (files w) (path_dirname filePath) of
                       Inl e \<Rightarrow> (Some e, w)
                     | Inr fs1 \<Rightarrow>
                         (case writeFileSync fs1 filePath new_content of
                            Inl e \<Rightarrow> (Some e, w\<lparr>files := fs1\<rparr>)
                          | Inr fs2 \<Rightarrow>
                              (None, w\<lparr>files := fs2,
                                       stdout := stdout w @ [''Wrote file: '' @ filename]\<rparr>)))))
      | _ \<Rightarrow> (Some (Runtime ''ERR_INVALID_ARG_TYPE''), w)))"

text \<open>\<^verbatim>\<open>data.files.forEach\<close>: the entries in order, stopping at the first exception.\<close>

fun forEach_file :: "string \<Rightarrow> jsval list \<Rightarrow> world \<Rightarrow> js_error option \<times> world" where
  "forEach_file currentDir [] w = (None, w)"
| "forEach_file currentDir (file # rest) w =
     (case process_file currentDir file w of
        (Some e, w') \<Rightarrow> (Some e, w')
      | (None, w') \<Rightarrow> forEach_file currentDir rest w')"

record outcome =
  exit_code :: nat
  final :: world

text \<open>
  The \<^verbatim>\<open>'end'\<close> handler: \<open>parsed\<close> is what \<^verbatim>\<open>JSON.parse(inputData)\<close> gives (a SyntaxError
  or a value), \<open>currentDir\<close> is \<^verbatim>\<open>process.cwd()\<close>. The \<^verbatim>\<open>catch\<close> prints the message and
  exits with 1; a run that throws nothing ends with exit code 0.
\<close>

definition try_body :: "string \<Rightarrow> js_error + jsval \<Rightarrow> world \<Rightarrow> js_error option \<times> world" where
  "try_body currentDir parsed w =
     (case parsed of
        Inl e \<Rightarrow> (Some e, w)
      | Inr data \<Rightarrow>
          (case get_prop data ''files'' of
             Inl e \<Rightarrow> (Some e, w)
           | Inr fs \<Rightarrow>
               (case fs of
                  JArray entries \<Rightarrow> forEach_file currentDir entries w
                | _ \<Rightarrow> (Some (Thrown ''Invalid input format: 'files' should be an array.''), w))))"

definition write_files :: "string \<Rightarrow> js_error + jsval \<Rightarrow> world \<Rightarrow> outcome" where
  "write_files currentDir parsed w =
     (case try_body currentDir parsed w of
        (None, w') \<Rightarrow> \<lparr>exit_code = 0, final = w'\<rparr>
      | (Some e, w') \<Rightarrow>
          \<lparr>exit_code = 1, final = w'\<lparr>stderr := stderr w' @ [''Error: '' @ message e]\<rparr>\<rparr>)"

section \<open>The Prompt Invoker\<close>

text \<open>
  \<^verbatim>\<open>String.prototype.trim\<close> removes white space and line terminators at both ends. A
  character stands for a code unit below 256; of these, the tab, the line feed, the
  vertical tab, the form feed, the carriage return, the space and the no-break space are
  removed.
\<close>

definition is_whitespace :: "char \<Rightarrow> bool" where
  "is_whitespace c = (of_char c \<in> {9, 10, 11, 12, 13, 32, 160 :: nat})"

definition trim :: "string \<Rightarrow> string" where
  "trim s = rev (dropWhile is_whitespace (rev (dropWhile is_whitespace s)))"

text \<open>
  What the process does that can be seen from outside, in order. \<open>SendMessage\<close> is the one
  call that goes to the network; \<open>NewClient\<close>, \<open>GetGenerativeModel\<close> and \<open>StartChat\<close> build
  local objects of the client library.
\<close>

datatype event =
    ReadFile string
  | Stderr string
  | Stdout string
  | NewClient string
  | GetGenerativeModel jsval jsval
  | ReadStdin
  | StartChat jsval
  | SendMessage string

text \<open>The response object: how the console prints it, and what its \<^verbatim>\<open>text()\<close> gives.\<close>

record response =
  inspect :: string
  text_of :: "js_error + string"

text \<open>
  Everything the invoker reads from its surroundings: the arguments after the script name,
  the working directory, the file system (\<^verbatim>\<open>fs.readFile\<close>), the YAML parser, the
  environment variable, the whole of standard input (or the stream's error), and the
  client library with the service behind it.
\<close>

record invoker_env =
  argv :: "string list"
  cwd :: string
  readFile :: "string \<Rightarrow> js_error + string"
  yaml_load :: "string \<Rightarrow> js_error + jsval"
  GEMINI_API_KEY :: "string option"
  stdin_data :: "js_error + string"
  getGenerativeModel :: "jsval \<Rightarrow> jsval \<Rightarrow> js_error option"
  sendMessage :: "jsval \<Rightarrow> jsval \<Rightarrow> jsval \<Rightarrow> string \<Rightarrow> js_error + response"

text \<open>\<^verbatim>\<open>readStdin\<close> resolves with the trimmed data, or rejects with the stream's error.\<close>

definition readStdin :: "invoker_env \<Rightarrow> js_error + string" where
  "readStdin env = (case stdin_data env of Inl err \<Rightarrow> Inl err | Inr data \<Rightarrow> Inr (trim data))"

text \<open>The outer \<^verbatim>\<open>catch\<close>: print the message, exit with 1.\<close>

definition caught :: "event list \<Rightarrow> js_error \<Rightarrow> event list \<times> nat" where
  "caught tr err = (tr @ [Stderr (''An error occurred: '' @ message err)], 1)"

text \<open>From the start of the chat session to the end of \<^verbatim>\<open>run\<close>.\<close>

definition run_chat ::
  "invoker_env \<Rightarrow> event list \<Rightarrow> jsval \<Rightarrow> jsval \<Rightarrow> jsval \<Rightarrow> string \<Rightarrow> event list \<times> nat" where
  "run_chat env tr model systemInstruction generationConfig userInput =
     (let tr1 = tr @ [StartChat generationConfig, SendMessage userInput] in
      case sendMessage env model systemInstruction generationConfig userInput of
        Inl err \<Rightarrow> caught tr1 err
      | Inr r \<Rightarrow>
          (let tr2 = tr1 @ [Stderr (inspect r)] in
           case text_of r of
             Inl err \<Rightarrow> caught tr2 err
           | Inr t \<Rightarrow> (tr2 @ [Stdout t], 0)))"

text \<open>From the validation of the configuration to the reading of standard input.\<close>

definition run_config :: "invoker_env \<Rightarrow> event list \<Rightarrow> jsval \<Rightarrow> event list \<times> nat" where
  "run_config env tr config =
     (case get_prop config ''model'' of
        Inl err \<Rightarrow> caught tr err
      | Inr model \<Rightarrow>
     if \<not> truthy model then
       (tr @ [Stderr ''Configuration file must include a 'model' property.''], 1)
     else
     (case get_prop config ''generationConfig'' of
        Inl err \<Rightarrow> caught tr err
      | Inr generationConfig \<Rightarrow>
     if \<not> truthy generationConfig then
       (tr @ [Stderr ''Configuration file must include a 'generationConfig' property.''], 1)
     else
     (case GEMINI_API_KEY env of
        None \<Rightarrow> (tr @ [Stderr ''Environment variable GEMINI_API_KEY is not set.''], 1)
      | Some apiKey \<Rightarrow>
     if apiKey = [] then
       (tr @ [Stderr ''Environment variable GEMINI_API_KEY is not set.''], 1)
     else
     (case get_prop config ''systemInstruction'' of
        Inl err \<Rightarrow> caught (tr @ [NewClient apiKey]) err
      | Inr systemInstruction \<Rightarrow>
     (let tr1 = tr @ [NewClient apiKey, GetGenerativeModel model systemInstruction] in
      case getGenerativeModel env model systemInstruction of
        Some err \<Rightarrow> caught tr1 err
      | None \<Rightarrow>
     (case readStdin env of
        Inl err \<Rightarrow> caught (tr1 @ [ReadStdin]) err
      | Inr userInput \<Rightarrow>
     if userInput = [] then
       (tr1 @ [ReadStdin, Stderr ''No input received from stdin.''], 1)
     else
       run_chat env (tr1 @ [ReadStdin]) model systemInstruction generationConfig userInput))))))"

text \<open>\<^verbatim>\<open>run\<close>: the events of one invocation and its exit code.\<close>

definition run :: "invoker_env \<Rightarrow> event list \<times> nat" where
  "run env =
     (let args = argv env in
      if length args \<noteq> 1 then ([Stderr ''Usage: node script.js <config-file.yaml>''], 1)
      else
        (let configPath = path_resolve (cwd env) [hd args] in
         case readFile env configPath of
           Inl err \<Rightarrow> caught [ReadFile configPath] err
         | Inr configContent \<Rightarrow>
             (case yaml_load env configContent of
                Inl yamlErr \<Rightarrow>
                  ([ReadFile configPath,
                    Stderr (''Error parsing YAML configuration: '' @ message yamlErr)], 1)
              | Inr config \<Rightarrow> run_config env [ReadFile configPath] config)))"

text \<open>What a trace shows: the messages sent to the service, the lines on standard output
  and on the diagnostic stream, and the clients built (by their keys).\<close>

definition messages_sent :: "event list \<Rightarrow> string list" where
  "messages_sent tr = concat (map (\<lambda>e. case e of SendMessage u \<Rightarrow> [u] | _ \<Rightarrow> []) tr)"

definition stdout_lines :: "event list \<Rightarrow> string list" where
  "stdout_lines tr = concat (map (\<lambda>e. case e of Stdout t \<Rightarrow> [t] | _ \<Rightarrow> []) tr)"

definition stderr_lines :: "event list \<Rightarrow> string list" where
  "stderr_lines tr = concat (map (\<lambda>e. case e of Stderr t \<Rightarrow> [t] | _ \<Rightarrow> []) tr)"

definition clients_built :: "event list \<Rightarrow> string list" where
  "clients_built tr = concat (map (\<lambda>e. case e of NewClient k \<Rightarrow> [k] | _ \<Rightarrow> []) tr)"

text \<open>A configuration document lacks a field when it is not a mapping or the mapping has
  no such key.\<close>

definition lacks :: "jsval \<Rightarrow> string \<Rightarrow> bool" where
  "lacks config name = (case config of JObject kvs \<Rightarrow> name \<notin> fst ` set kvs | _ \<Rightarrow> True)"

section \<open>Git, as the Commit Replay Driver uses it\<close>

text \<open>
  A commit is its content: the tree it records (path to file content), its parents in
  order, its message and its commit date. Git names a commit by a hash of this content, so
  two commits are the same object exactly when their contents are equal, and the history
  below a commit is part of it.
\<close>

type_synonym tree = "string \<rightharpoonup> string"

datatype commit =
  Commit (tree_of: tree) (parents: "commit list") (message_of: string) (date: nat)

datatype head = OnBranch string | Detached commit

text \<open>
  The repository: the refs by full name, \<^verbatim>\<open>HEAD\<close>, the index and the files of the working
  tree (tracked or not; ignore rules are not modelled).
\<close>

record repo =
  refs :: "string \<rightharpoonup> commit"
  HEAD :: head
  index :: tree
  worktree :: tree

definition head_commit :: "repo \<Rightarrow> commit option" where
  "head_commit r = (case HEAD r of Detached c \<Rightarrow> Some c | OnBranch b \<Rightarrow> refs r b)"

definition head_tree :: "repo \<Rightarrow> tree" where
  "head_tree r = (case head_commit r of None \<Rightarrow> Map.empty | Some c \<Rightarrow> tree_of c)"

text \<open>
  \<^verbatim>\<open>git status --porcelain\<close> prints nothing exactly when nothing is staged (the index is
  the tree of \<^verbatim>\<open>HEAD\<close>) and the working tree has neither a change nor an untracked file
  (its files are those of the index).
\<close>

definition status_clean :: "repo \<Rightarrow> bool" where
  "status_clean r = (index r = head_tree r \<and> worktree r = index r)"

subsection \<open>\<^verbatim>\<open>git rev-list\<close>\<close>

text \<open>
  The default order of \<^verbatim>\<open>git rev-list\<close>: a queue of commits ordered by commit date,
  newest first, a commit going in behind those of the same date; the front commit is
  printed, and its parents that were never queued before are queued.
\<close>

fun insert_by_date :: "commit \<Rightarrow> commit list \<Rightarrow> commit list" where
  "insert_by_date c [] = [c]"
| "insert_by_date c (x # xs) =
     (if date x < date c then c # x # xs else x # insert_by_date c xs)"

definition add_parent :: "commit \<Rightarrow> commit list \<times> commit list \<Rightarrow> commit list \<times> commit list" where
  "add_parent p qs =
     (case qs of (queue, seen) \<Rightarrow>
        if p \<in> set seen then (queue, seen) else (insert_by_date p queue, p # seen))"

lemma sum_size_insert_by_date:
  "sum_list (map size (insert_by_date c q)) = size c + sum_list (map size q)"
  by (induction q) auto

lemma sum_size_add_parents:
  "sum_list (map size (fst (fold add_parent ps (q, seen))))
     \<le> sum_list (map size ps) + sum_list (map size q)"
proof (induction ps arbitrary: q seen)
  case Nil
  then show ?case by simp
next
  case (Cons p ps)
  show ?case
  proof (cases "p \<in> set seen")
    case True
    then have "fold add_parent (p # ps) (q, seen) = fold add_parent ps (q, seen)"
      by (simp add: add_parent_def)
    with Cons.IH [of q seen] show ?thesis by simp
  next
    case False
    then have "fold add_parent (p # ps) (q, seen)
                 = fold add_parent ps (insert_by_date p q, p # seen)"
      by (simp add: add_parent_def)
    with Cons.IH [of "insert_by_date p q" "p # seen"] show ?thesis
      by (simp add: sum_size_insert_by_date)
  qed
qed

lemma sum_size_parents: "sum_list (map size (parents c)) < size c"
proof (cases c)
  case (Commit t ps m d)
  have "sum_list (map size ps) \<le> size_list size ps"
    by (induction ps) auto
  with Commit show ?thesis by simp
qed

function rev_list_walk :: "commit list \<Rightarrow> commit list \<Rightarrow> commit list" where
  "rev_list_walk [] seen = []"
| "rev_list_walk (c # queue) seen =
     c # rev_list_walk (fst (fold add_parent (parents c) (queue, seen)))
           (snd (fold add_parent (parents c) (queue, seen)))"
  by pat_completeness auto
termination
proof (relation "measure (\<lambda>p. sum_list (map size (fst p)))", goal_cases)
  case 1
  show ?case by simp
next
  case (2 c queue seen)
  from sum_size_add_parents [of "parents c" queue seen] sum_size_parents [of c]
  show ?case by simp
qed

text \<open>\<^verbatim>\<open>git rev-list <tip>\<close>\<close>

definition rev_list :: "commit \<Rightarrow> commit list" where
  "rev_list tip = rev_list_walk [tip] [tip]"

text \<open>A commit and everything reachable from it through parents.\<close>

fun ancestors_or_self :: "commit \<Rightarrow> commit list" where
  "ancestors_or_self (Commit t ps m d) =
     Commit t ps m d # concat (map ancestors_or_self ps)"

text \<open>
  \<^verbatim>\<open>git rev-list <tip> --ancestry-path <bottom>..<tip>\<close>: of the commits reachable from
  the tip, those that descend from the bottom commit (which leaves out the bottom and
  all it reaches), in the order of the walk.
\<close>

definition ancestry_path :: "commit \<Rightarrow> commit \<Rightarrow> commit list" where
  "ancestry_path bottom tip =
     filter (\<lambda>c. c \<noteq> bottom \<and> bottom \<in> set (ancestors_or_self c)) (rev_list tip)"

text \<open>\<^verbatim>\<open>... --reverse | head -n 1\<close>: the last commit of the list, nothing for an empty one.\<close>

definition reverse_head_1 :: "commit list \<Rightarrow> commit option" where
  "reverse_head_1 cs = (if cs = [] then None else Some (last cs))"

subsection \<open>The commands that change the repository\<close>

text \<open>
  Moving the index and the working tree to a tree: its files are written, tracked files
  that it lacks are removed, untracked files stay.
\<close>

definition switch_tree :: "repo \<Rightarrow> tree \<Rightarrow> repo" where
  "switch_tree r t =
     r\<lparr>index := t,
       worktree := (\<lambda>p. case t p of
                           Some c \<Rightarrow> Some c
                         | None \<Rightarrow> if index r p \<noteq> None then None else worktree r p)\<rparr>"

definition update_ref :: "repo \<Rightarrow> string \<Rightarrow> commit \<Rightarrow> repo" where
  "update_ref r name c = r\<lparr>refs := (refs r)(name \<mapsto> c)\<rparr>"

text \<open>\<^verbatim>\<open>git reset --hard <commit>\<close>\<close>

definition reset_hard :: "repo \<Rightarrow> commit \<Rightarrow> repo" where
  "reset_hard r c =
     switch_tree
       (case HEAD r of
          OnBranch b \<Rightarrow> update_ref r b c
        | Detached d \<Rightarrow> r\<lparr>HEAD := Detached c\<rparr>)
       (tree_of c)"

text \<open>\<^verbatim>\<open>git add docs/\<close>, run at the top of the working tree: the index takes the files
  below \<^verbatim>\<open>docs/\<close> as the working tree has them.\<close>

definition stage_docs :: "tree \<Rightarrow> tree \<Rightarrow> tree" where
  "stage_docs wt ix = (\<lambda>p. if prefix ''docs/'' p then wt p else ix p)"

definition git_add_docs :: "repo \<Rightarrow> repo" where
  "git_add_docs r = r\<lparr>index := stage_docs (worktree r) (index r)\<rparr>"

section \<open>The Commit Replay Driver\<close>

definition tracking_branch :: string where
  "tracking_branch = ''gen-commits''"

definition base_branch :: string where
  "base_branch = ''remotes/origin/main''"

definition tracking_ref :: string where
  "tracking_ref = ''refs/heads/'' @ tracking_branch"

text \<open>The ref that the revision \<^verbatim>\<open>remotes/origin/main\<close> names.\<close>

definition base_ref :: string where
  "base_ref = ''refs/'' @ base_branch"

text \<open>
  What the script needs from outside the repository: the printed name of a commit, the
  generation command (\<^verbatim>\<open>llm-gen-docs.sh\<close>, given the commit whose diff it reads and the
  files of the working tree; it returns its exit status and the files it leaves), and the
  clock that dates a new commit.
\<close>

record driver_env =
  sha :: "commit \<Rightarrow> string"
  generate :: "commit \<Rightarrow> tree \<Rightarrow> nat \<times> tree"
  now :: nat

text \<open>
  The value of the shell variable \<^verbatim>\<open>last_base_commit\<close>: never assigned, a commit, or the
  text that \<^verbatim>\<open>git rev-parse\<close> echoes for a revision it cannot resolve.
\<close>

datatype revision = Unset | Hash commit | Unresolved

text \<open>\<^verbatim>\<open>git rev-parse <commit>^1\<close>\<close>

definition rev_parse_first_parent :: "commit \<Rightarrow> revision" where
  "rev_parse_first_parent g = (case parents g of [] \<Rightarrow> Unresolved | p # ps \<Rightarrow> Hash p)"

text \<open>\<^verbatim>\<open>git rev-list --reverse $base_branch | head -n 1\<close>\<close>

definition first_commit_on_base :: "repo \<Rightarrow> commit option" where
  "first_commit_on_base r =
     (case refs r base_ref of None \<Rightarrow> None | Some b \<Rightarrow> reverse_head_1 (rev_list b))"

text \<open>\<^verbatim>\<open>git rev-list --reverse $base_branch --ancestry-path ${last_base_commit}..$base_branch | head -n 1\<close>\<close>

definition next_commit_on_base :: "repo \<Rightarrow> revision \<Rightarrow> commit option" where
  "next_commit_on_base r last_base_commit =
     (case last_base_commit of
        Hash lb \<Rightarrow>
          (case refs r base_ref of
             None \<Rightarrow> None
           | Some b \<Rightarrow> reverse_head_1 (ancestry_path lb b))
      | _ \<Rightarrow> None)"

text \<open>
  \<^verbatim>\<open>git checkout -b $tracking_branch $first_commit_on_base\<close>, the branch not existing.
  With an empty start point the branch starts at \<^verbatim>\<open>HEAD\<close>.
\<close>

definition checkout_b :: "repo \<Rightarrow> commit option \<Rightarrow> repo" where
  "checkout_b r start =
     (case start of
        Some c \<Rightarrow>
          switch_tree ((update_ref r tracking_ref c)\<lparr>HEAD := OnBranch tracking_ref\<rparr>) (tree_of c)
      | None \<Rightarrow>
          (case head_commit r of
             Some h \<Rightarrow> (update_ref r tracking_ref h)\<lparr>HEAD := OnBranch tracking_ref\<rparr>
           | None \<Rightarrow> r\<lparr>HEAD := OnBranch tracking_ref\<rparr>))"

text \<open>\<^verbatim>\<open>git checkout $tracking_branch\<close>, the branch being at \<open>tip\<close>.\<close>

definition checkout :: "repo \<Rightarrow> commit \<Rightarrow> repo" where
  "checkout r tip = switch_tree (r\<lparr>HEAD := OnBranch tracking_ref\<rparr>) (tree_of tip)"

record driver_result =
  status :: nat
  repo_after :: repo
  echoed :: "string list"

text \<open>
  Lines 94 to 112 of the script: the tracking branch is created or checked out. The
  result is the repository, the lines echoed, \<^verbatim>\<open>last_generated_commit\<close> (\<open>None\<close> for
  the empty string) and \<^verbatim>\<open>last_base_commit\<close>.
\<close>

definition ensure_branch :: "repo \<Rightarrow> repo \<times> string list \<times> commit option \<times> revision" where
  "ensure_branch r =
     (case refs r tracking_ref of
        None \<Rightarrow>
          (checkout_b r (first_commit_on_base r),
           [''Tracking branch '' @ tracking_branch @ '' does not exist, creating it...''],
           None, Unset)
      | Some tip \<Rightarrow>
          (checkout r tip,
           [''Tracking branch '' @ tracking_branch @ '' found, checking out...''],
           Some tip, rev_parse_first_parent tip))"

text \<open>Lines 114 to 128: \<^verbatim>\<open>start_commit\<close>.\<close>

definition select_start_commit :: "repo \<Rightarrow> commit option \<Rightarrow> revision \<Rightarrow> commit option" where
  "select_start_commit r last_generated_commit last_base_commit =
     (case last_generated_commit of
        None \<Rightarrow> first_commit_on_base r
      | Some g \<Rightarrow>
          next_commit_on_base r
            (if last_base_commit = Unset then rev_parse_first_parent g else last_base_commit))"

text \<open>Lines 157 to 174: stage, write the tree, commit it, move the branch, reset.\<close>

definition new_generated_commit :: "driver_env \<Rightarrow> tree \<Rightarrow> commit \<Rightarrow> commit option \<Rightarrow> commit" where
  "new_generated_commit env t start_commit last_generated_commit =
     Commit t
       (case last_generated_commit of
          Some g \<Rightarrow> [start_commit, g]
        | None \<Rightarrow> [start_commit])
       (''Generated files for '' @ sha env start_commit @ [CHR 0x0A])
       (now env)"

definition commit_generated :: "driver_env \<Rightarrow> repo \<Rightarrow> commit \<Rightarrow> commit option \<Rightarrow> repo" where
  "commit_generated env r start_commit last_generated_commit =
     (let r1 = git_add_docs r;
          n = new_generated_commit env (index r1) start_commit last_generated_commit
      in reset_hard (update_ref r1 tracking_ref n) n)"

text \<open>One run of the script. Of its output, the lines it echoes itself are kept.\<close>

definition driver :: "driver_env \<Rightarrow> repo \<Rightarrow> driver_result" where
  "driver env r =
     (if \<not> status_clean r then
        \<lparr>status = 1, repo_after = r,
         echoed = [''Error: Working directory is not clean. Please commit or stash your changes before running this script.'']\<rparr>
      else
        (case ensure_branch r of
           (r1, out, last_generated_commit, last_base_commit) \<Rightarrow>
        (case select_start_commit r1 last_generated_commit last_base_commit of
           None \<Rightarrow>
             \<lparr>status = 0, repo_after = r1,
              echoed = out @ [''No new commits to process. All caught up.'']\<rparr>
         | Some start_commit \<Rightarrow>
        (case generate env start_commit (worktree r1) of
           (rc, wt) \<Rightarrow>
             if rc \<noteq> 0 then
               \<lparr>status = 1, repo_after = r1\<lparr>worktree := wt\<rparr>,
                echoed = out @ [''Error: Generation command failed for commit '' @
                                sha env start_commit @ ''. Aborting.'']\<rparr>
             else
               \<lparr>status = 0,
                repo_after = commit_generated env (r1\<lparr>worktree := wt\<rparr>) start_commit
                               last_generated_commit,
                echoed = out @ [''Processed and committed '' @ sha env start_commit @
                                ''. Tracking branch updated.'']\<rparr>))))"

section \<open>Example inputs\<close>

text \<open>An invocation of the Prompt Invoker in which every check passes and the service
  echoes the message.\<close>

definition env_ok :: invoker_env where
  "env_ok =
     \<lparr>argv = [''generate-docs.yaml''], cwd = ''/repo'',
      readFile = (\<lambda>p. Inr ''model: m''),
      yaml_load = (\<lambda>s. Inr (JObject [(''model'', JString ''m''),
                                       (''generationConfig'', JObject [])])),
      GEMINI_API_KEY = Some ''key'',
      stdin_data = Inr ''PATCH: x'',
      getGenerativeModel = (\<lambda>m s. None),
      sendMessage = (\<lambda>m s g u. Inr \<lparr>inspect = ''{}'', text_of = Inr u\<rparr>)\<rparr>"

text \<open>A file system with the working directory \<^verbatim>\<open>/home/u/proj\<close>, one file in it, and
  nothing printed yet.\<close>

definition w_proj :: world where
  "w_proj =
     \<lparr>files = [''/'' \<mapsto> Dir, ''/home'' \<mapsto> Dir, ''/home/u'' \<mapsto> Dir,
               ''/home/u/proj'' \<mapsto> Dir, ''/home/u/proj/old.md'' \<mapsto> File ''old''],
      stdout = [], stderr = []\<rparr>"

text \<open>A File Change Set whose second entry has no \<^verbatim>\<open>new_content\<close>.\<close>

definition batch :: jsval where
  "batch = JObject [(''files'', JArray
     [JObject [(''filename'', JString ''a.md''), (''new_content'', JString ''A'')],
      JObject [(''filename'', JString ''docs/b.md'')],
      JObject [(''filename'', JString ''c.md''), (''new_content'', JString ''C'')]])]"

text \<open>
  The generation command behaves when it always succeeds and creates no file outside
  \<^verbatim>\<open>docs/\<close> (what it does to existing files is not restricted).
\<close>

definition generation_ok :: "driver_env \<Rightarrow> bool" where
  "generation_ok env =
     (\<forall>c wt. fst (generate env c wt) = 0
        \<and> (\<forall>p. \<not> prefix ''docs/'' p \<and> wt p = None \<longrightarrow> snd (generate env c wt) p = None))"

text \<open>The repository on the tracking branch at commit \<open>n\<close>, clean.\<close>

definition on_tracking :: "(string \<rightharpoonup> commit) \<Rightarrow> commit \<Rightarrow> repo" where
  "on_tracking rs n =
     \<lparr>refs = rs(tracking_ref \<mapsto> n), HEAD = OnBranch tracking_ref,
      index = tree_of n, worktree = tree_of n\<rparr>"

text \<open>A base branch of three commits, and a repository that has it as
  \<^verbatim>\<open>remotes/origin/main\<close>, has \<^verbatim>\<open>main\<close> checked out, and is clean.\<close>

definition commit_1 :: commit where
  "commit_1 = Commit [''src/a.js'' \<mapsto> ''1''] [] ''first'' 1"

definition commit_2 :: commit where
  "commit_2 = Commit [''src/a.js'' \<mapsto> ''2''] [commit_1] ''second'' 2"

definition commit_3 :: commit where
  "commit_3 = Commit [''src/a.js'' \<mapsto> ''3''] [commit_2] ''third'' 3"

definition repo_start :: repo where
  "repo_start =
     \<lparr>refs = [base_ref \<mapsto> commit_3, ''refs/heads/main'' \<mapsto> commit_3],
      HEAD = OnBranch ''refs/heads/main'',
      index = [''src/a.js'' \<mapsto> ''3''],
      worktree = [''src/a.js'' \<mapsto> ''3'']\<rparr>"

text \<open>A generation command that writes one file below \<^verbatim>\<open>docs/\<close> for the commit it is
  given; commits are printed by their messages.\<close>

definition env_gen :: driver_env where
  "env_gen =
     \<lparr>sha = message_of,
      generate = (\<lambda>c wt. (0, wt(''docs/'' @ message_of c @ ''.md'' \<mapsto> ''about '' @ message_of c))),
      now = 10\<rparr>"

text \<open>The three commits that the driver generates from them, the repositories that
  its first three runs leave, and a repository with an untracked file.\<close>

definition gen_1 :: commit where
  "gen_1 = new_generated_commit env_gen
     (stage_docs (snd (generate env_gen commit_1 (tree_of commit_1))) (tree_of commit_1))
     commit_1 None"

definition gen_2 :: commit where
  "gen_2 = new_generated_commit env_gen
     (stage_docs (snd (generate env_gen commit_2 (tree_of gen_1))) (tree_of gen_1))
     commit_2 (Some gen_1)"

definition gen_3 :: commit where
  "gen_3 = new_generated_commit env_gen
     (stage_docs (snd (generate env_gen commit_3 (tree_of gen_2))) (tree_of gen_2))
     commit_3 (Some gen_2)"

definition run_1 :: repo where
  "run_1 = repo_after (driver env_gen repo_start)"

definition run_2 :: repo where
  "run_2 = repo_after (driver env_gen run_1)"

definition run_3 :: repo where
  "run_3 = repo_after (driver env_gen run_2)"

definition repo_dirty :: repo where
  "repo_dirty = repo_start\<lparr>worktree := [''src/a.js'' \<mapsto> ''3'', ''notes.txt'' \<mapsto> ''x'']\<rparr>"

section \<open>Properties of the Prompt Invoker\<close>

lemma messages_sent_simps:
  "messages_sent [] = []"
  "messages_sent (e # tr) = (case e of SendMessage u \<Rightarrow> [u] | _ \<Rightarrow> []) @ messages_sent tr"
  "messages_sent (tr @ tr') = messages_sent tr @ messages_sent tr'"
  by (simp_all add: messages_sent_def)

lemma stdout_lines_simps:
  "stdout_lines [] = []"
  "stdout_lines (e # tr) = (case e of Stdout t \<Rightarrow> [t] | _ \<Rightarrow> []) @ stdout_lines tr"
  "stdout_lines (tr @ tr') = stdout_lines tr @ stdout_lines tr'"
  by (simp_all add: stdout_lines_def)

lemma stderr_lines_simps:
  "stderr_lines [] = []"
  "stderr_lines (e # tr) = (case e of Stderr t \<Rightarrow> [t] | _ \<Rightarrow> []) @ stderr_lines tr"
  "stderr_lines (tr @ tr') = stderr_lines tr @ stderr_lines tr'"
  by (simp_all add: stderr_lines_def)

lemma clients_built_simps:
  "clients_built [] = []"
  "clients_built (e # tr) = (case e of NewClient k \<Rightarrow> [k] | _ \<Rightarrow> []) @ clients_built tr"
  "clients_built (tr @ tr') = clients_built tr @ clients_built tr'"
  by (simp_all add: clients_built_def)

lemmas trace_simps =
  messages_sent_simps stdout_lines_simps stderr_lines_simps clients_built_simps

lemmas invoker_defs =
  run_def run_config_def run_chat_def readStdin_def caught_def trim_def is_whitespace_def
  path_resolve_def normalizeString_def normalize_step_def

lemma trim_all_whitespace: "list_all is_whitespace s \<Longrightarrow> trim s = []"
  by (auto simp: trim_def list_all_iff dest: set_dropWhileD)

lemma lacks_get_prop:
  "lacks config name \<Longrightarrow> get_prop config name = Inr v \<Longrightarrow> v = JUndefined"
  by (cases config) (force simp: lacks_def dest: map_of_SomeD split: option.splits)+

lemma run_config_lacking:
  assumes "lacks config ''model'' \<or> lacks config ''generationConfig''"
  shows "snd (run_config env tr config) = 1
       \<and> stderr_lines (fst (run_config env tr config)) \<noteq> stderr_lines tr
       \<and> clients_built (fst (run_config env tr config)) = clients_built tr
       \<and> messages_sent (fst (run_config env tr config)) = messages_sent tr"
proof (cases "get_prop config ''model''")
  case (Inl e)
  then show ?thesis
    by (simp add: run_config_def caught_def trace_simps)
next
  case model: (Inr model)
  show ?thesis
  proof (cases "truthy model")
    case False
    with model show ?thesis
      by (simp add: run_config_def caught_def trace_simps)
  next
    case True
    with model assms have "\<not> lacks config ''model''"
      using lacks_get_prop by fastforce
    with assms have lg: "lacks config ''generationConfig''" by simp
    show ?thesis
    proof (cases "get_prop config ''generationConfig''")
      case (Inl e)
      with model True show ?thesis
        by (simp add: run_config_def caught_def trace_simps)
    next
      case (Inr g)
      with lg have "g = JUndefined" using lacks_get_prop by blast
      with Inr model True show ?thesis
        by (simp add: run_config_def caught_def trace_simps)
    qed
  qed
qed

text \<open>
  Claim C4. Whenever the configuration document that the invoker loads lacks the
  \<^verbatim>\<open>model\<close> field or lacks the \<^verbatim>\<open>generationConfig\<close> field, the invoker exits with code 1,
  has printed a diagnostic, has built no API client and has sent nothing to the service.
\<close>

theorem missing_config_field_exits:
  assumes "readFile env (path_resolve (cwd env) [hd (argv env)]) = Inr content"
    and "yaml_load env content = Inr config"
    and "lacks config ''model'' \<or> lacks config ''generationConfig''"
  shows "snd (run env) = 1 \<and> stderr_lines (fst (run env)) \<noteq> []
       \<and> clients_built (fst (run env)) = [] \<and> messages_sent (fst (run env)) = []"
proof (cases "length (argv env) = 1")
  case False
  then show ?thesis by (simp add: run_def trace_simps)
next
  case True
  with assms(1,2)
  have "run env = run_config env [ReadFile (path_resolve (cwd env) [hd (argv env)])] config"
    by (simp add: run_def)
  with run_config_lacking
    [OF assms(3), of env "[ReadFile (path_resolve (cwd env) [hd (argv env)])]"]
  show ?thesis
    by (simp add: trace_simps)
qed

theorem missing_config_field_exits_witness:
  "readFile (env_ok\<lparr>yaml_load := \<lambda>s. Inr (JObject [(''model'', JString ''m'')])\<rparr>)
     (path_resolve ''/repo'' [''generate-docs.yaml'']) = Inr ''model: m''
   \<and> lacks (JObject [(''model'', JString ''m'')]) ''generationConfig''
   \<and> run (env_ok\<lparr>yaml_load := \<lambda>s. Inr (JObject [(''model'', JString ''m'')])\<rparr>)
       = ([ReadFile ''/repo/generate-docs.yaml'',
           Stderr ''Configuration file must include a 'generationConfig' property.''], 1)"
  using missing_config_field_exits
    [of "env_ok\<lparr>yaml_load := \<lambda>s. Inr (JObject [(''model'', JString ''m'')])\<rparr>"
        "''model: m''" "JObject [(''model'', JString ''m'')]"]
  by (simp add: env_ok_def lacks_def invoker_defs)

lemma run_config_empty_input:
  assumes "readStdin env = Inr []"
  shows "snd (run_config env tr config) = 1
       \<and> messages_sent (fst (run_config env tr config)) = messages_sent tr
       \<and> stdout_lines (fst (run_config env tr config)) = stdout_lines tr"
  using assms
  by (simp add: run_config_def caught_def trace_simps Let_def
           split: sum.splits option.splits)

text \<open>
  Claim C5. Whenever the prompt payload on standard input is empty or has only white space
  in it, the invoker exits with code 1, has sent no message to the service and has written
  nothing to standard output.
\<close>

theorem empty_prompt_rejected:
  assumes "stdin_data env = Inr payload" and "list_all is_whitespace payload"
  shows "snd (run env) = 1 \<and> messages_sent (fst (run env)) = []
       \<and> stdout_lines (fst (run env)) = []"
proof -
  have "readStdin env = Inr []"
    using assms by (simp add: readStdin_def trim_all_whitespace)
  from run_config_empty_input [OF this] show ?thesis
    by (simp add: run_def caught_def trace_simps Let_def split: sum.splits)
qed

theorem empty_prompt_rejected_witness:
  "stdin_data (env_ok\<lparr>stdin_data := Inr [CHR 0x20, CHR 0x09, CHR 0x0A]\<rparr>)
     = Inr [CHR 0x20, CHR 0x09, CHR 0x0A]
   \<and> list_all is_whitespace [CHR 0x20, CHR 0x09, CHR 0x0A]
   \<and> run (env_ok\<lparr>stdin_data := Inr [CHR 0x20, CHR 0x09, CHR 0x0A]\<rparr>)
       = ([ReadFile ''/repo/generate-docs.yaml'', NewClient ''key'',
           GetGenerativeModel (JString ''m'') JUndefined, ReadStdin,
           Stderr ''No input received from stdin.''], 1)"
  using empty_prompt_rejected
    [of "env_ok\<lparr>stdin_data := Inr [CHR 0x20, CHR 0x09, CHR 0x0A]\<rparr>"
        "[CHR 0x20, CHR 0x09, CHR 0x0A]"]
  by (simp add: env_ok_def invoker_defs)

lemma run_config_success:
  assumes "snd (run_config env tr config) = 0"
  shows "\<exists>payload. stdin_data env = Inr payload \<and> trim payload \<noteq> []
          \<and> messages_sent (fst (run_config env tr config)) = messages_sent tr @ [trim payload]"
  using assms
  by (auto simp: run_config_def run_chat_def readStdin_def caught_def trace_simps Let_def
           split: sum.splits option.splits if_splits)

text \<open>
  Claim C9, as the code has it. On every invocation that exits with code 0 the invoker has
  sent exactly one message to the service, and that message is the payload read from
  standard input with the white space at both ends removed.
\<close>

theorem one_message_trimmed:
  assumes "snd (run env) = 0"
  shows "\<exists>payload. stdin_data env = Inr payload \<and> trim payload \<noteq> []
          \<and> messages_sent (fst (run env)) = [trim payload]"
proof -
  from assms obtain p config where
    r: "run env = run_config env [ReadFile p] config"
    by (auto simp: run_def caught_def Let_def split: sum.splits if_splits)
  with assms have "snd (run_config env [ReadFile p] config) = 0" by simp
  from run_config_success [OF this] r show ?thesis
    by (simp add: trace_simps)
qed

theorem one_message_trimmed_witness:
  "snd (run env_ok) = 0 \<and> stdin_data env_ok = Inr ''PATCH: x''
   \<and> messages_sent (fst (run env_ok)) = [''PATCH: x'']"
  using one_message_trimmed [of env_ok]
  by (simp add: env_ok_def invoker_defs trace_simps)

text \<open>
  Claim C9 as stated fails: with the payload \<^verbatim>\<open>PATCH: x\<close> followed by a line feed on
  standard input (which is what a here-string supplies), the run succeeds and the message
  sent is not the payload: the line feed is gone.
\<close>

theorem payload_not_sent_unmodified:
  "stdin_data (env_ok\<lparr>stdin_data := Inr (''PATCH: x'' @ [CHR 0x0A])\<rparr>)
     = Inr (''PATCH: x'' @ [CHR 0x0A])
   \<and> snd (run (env_ok\<lparr>stdin_data := Inr (''PATCH: x'' @ [CHR 0x0A])\<rparr>)) = 0
   \<and> messages_sent (fst (run (env_ok\<lparr>stdin_data := Inr (''PATCH: x'' @ [CHR 0x0A])\<rparr>)))
       = [''PATCH: x'']
   \<and> ''PATCH: x'' \<noteq> ''PATCH: x'' @ [CHR 0x0A]"
  by (simp add: env_ok_def invoker_defs trace_simps)

section \<open>Properties of the File Writer\<close>

lemmas path_defs =
  path_resolve_def normalizeString_def normalize_step_def path_dirname_def dir_chain_def
  path_segments_def inside_dir_def

lemmas writer_defs =
  write_files_def try_body_def process_file_def existsSync_def unlinkSync_def mkdirSync_def
  writeFileSync_def

lemma forEach_file_append:
  "forEach_file currentDir (xs @ ys) w =
     (case forEach_file currentDir xs w of
        (Some e, w') \<Rightarrow> (Some e, w')
      | (None, w') \<Rightarrow> forEach_file currentDir ys w')"
  by (induction xs arbitrary: w) (auto split: prod.splits option.splits)

lemma mkdir_chain_keeps:
  "mkdir_chain fs ds = Inr fs' \<Longrightarrow> fs p = Some n \<Longrightarrow> fs' p = Some n"
proof (induction ds arbitrary: fs)
  case Nil
  then show ?case by simp
next
  case (Cons d ds)
  show ?case
  proof (cases "fs d")
    case None
    with Cons.prems have "mkdir_chain (fs(d \<mapsto> Dir)) ds = Inr fs'" by simp
    moreover from None Cons.prems have "(fs(d \<mapsto> Dir)) p = Some n" by auto
    ultimately show ?thesis by (rule Cons.IH)
  next
    case (Some nd)
    with Cons.prems have "mkdir_chain fs ds = Inr fs'"
      by (cases nd) simp_all
    then show ?thesis using Cons.prems(2) by (rule Cons.IH)
  qed
qed

text \<open>
  Claim C2, at the input where the code departs from it. In the working directory
  \<^verbatim>\<open>/home/u/proj\<close> the filename \<^verbatim>\<open>../project/x\<close> resolves to \<^verbatim>\<open>/home/u/project/x\<close>, which
  is outside the working directory; the File Writer raises no error, exits with code 0
  and writes the file.
\<close>

theorem path_escape_not_detected:
  "path_resolve ''/home/u/proj'' [''/home/u/proj'', ''../project/x''] = ''/home/u/project/x''
   \<and> \<not> inside_dir ''/home/u/proj'' ''/home/u/project/x''
   \<and> exit_code (write_files ''/home/u/proj''
        (Inr (JObject [(''files'', JArray [JObject [(''filename'', JString ''../project/x''),
                                                   (''new_content'', JString ''hi'')]])]))
        w_proj) = 0
   \<and> stderr (final (write_files ''/home/u/proj''
        (Inr (JObject [(''files'', JArray [JObject [(''filename'', JString ''../project/x''),
                                                   (''new_content'', JString ''hi'')]])]))
        w_proj)) = []
   \<and> files (final (write_files ''/home/u/proj''
        (Inr (JObject [(''files'', JArray [JObject [(''filename'', JString ''../project/x''),
                                                   (''new_content'', JString ''hi'')]])]))
        w_proj)) ''/home/u/project/x'' = Some (File ''hi'')"
  by (simp add: path_defs writer_defs w_proj_def)

lemma split_path_nonempty: "split_path p \<noteq> []"
  by (induction p) (auto split: list.splits)

lemma split_path_append:
  "split_path (a @ b) =
     butlast (split_path a) @ (last (split_path a) @ hd (split_path b)) # tl (split_path b)"
proof (induction a)
  case Nil
  then show ?case using split_path_nonempty [of b] by simp
next
  case (Cons c cs)
  obtain s0 ss0 where scs: "split_path cs = s0 # ss0"
    using split_path_nonempty [of cs] by (cases "split_path cs") auto
  show ?case
  proof (cases "c = CHR ''/''")
    case True
    with Cons scs show ?thesis by simp
  next
    case False
    with Cons scs show ?thesis by (cases ss0) simp_all
  qed
qed

lemma split_path_no_slash: "CHR ''/'' \<notin> set s \<Longrightarrow> split_path s = [s]"
  by (induction s) auto

lemma split_path_join:
  "segs \<noteq> [] \<Longrightarrow> list_all (\<lambda>s. s \<noteq> [] \<and> CHR ''/'' \<notin> set s) segs \<Longrightarrow>
     split_path (join_path segs) = segs"
proof (induction segs rule: join_path.induct)
  case 1
  then show ?case by simp
next
  case (2 s)
  then show ?case by (simp add: split_path_no_slash)
next
  case (3 s t ss)
  then have "split_path (join_path (t # ss)) = t # ss" by simp
  moreover from 3 have "split_path s = [s]" by (simp add: split_path_no_slash)
  ultimately show ?case
    using split_path_append [of s "''/'' @ join_path (t # ss)"] by simp
qed

lemma string_extension_outside:
  assumes "segs \<noteq> []" and "list_all (\<lambda>s. s \<noteq> [] \<and> CHR ''/'' \<notin> set s) segs"
    and "t \<noteq> []" and "hd t \<noteq> CHR ''/''"
  shows "\<not> inside_dir (''/'' @ join_path segs) ((''/'' @ join_path segs) @ t)"
proof -
  let ?dir = "''/'' @ join_path segs"
  have sd: "split_path ?dir = [] # segs"
    using assms(1,2) by (simp add: split_path_join)
  from assms(3,4) obtain c cs where t: "t = c # cs" "c \<noteq> CHR ''/''"
    by (cases t) auto
  obtain s0 ss0 where scs: "split_path cs = s0 # ss0"
    using split_path_nonempty [of cs] by (cases "split_path cs") auto
  with t have st: "split_path t = (c # s0) # ss0" by simp
  have ne: "filter (\<lambda>s. s \<noteq> []) segs = segs"
    using assms(2) by (simp add: list_all_iff filter_id_conv)
  then have neb: "filter (\<lambda>s. s \<noteq> []) (butlast segs) = butlast segs"
    by (metis filter_id_conv in_set_butlastD)
  have "split_path (?dir @ t) =
      butlast (split_path ?dir) @ (last (split_path ?dir) @ hd (split_path t)) # tl (split_path t)"
    by (rule split_path_append)
  also have "\<dots> = ([] # butlast segs) @ (last segs @ c # s0) # ss0"
    unfolding sd st using assms(1) by simp
  finally have "split_path (?dir @ t) = ([] # butlast segs) @ (last segs @ c # s0) # ss0" .
  then have "path_segments (?dir @ t) =
      filter (\<lambda>s. s \<noteq> []) (([] # butlast segs) @ (last segs @ c # s0) # ss0)"
    unfolding path_segments_def by (rule arg_cong)
  then have pt: "path_segments (?dir @ t) =
      butlast segs @ (last segs @ c # s0) # filter (\<lambda>s. s \<noteq> []) ss0"
    by (simp add: neb)
  have "path_segments ?dir = filter (\<lambda>s. s \<noteq> []) ([] # segs)"
    unfolding path_segments_def sd ..
  with assms(1) have pd: "path_segments ?dir = butlast segs @ [last segs]"
    by (simp add: ne)
  show ?thesis
    unfolding inside_dir_def pt pd by simp
qed


lemma mkdir_chain_error: "mkdir_chain fs ds = Inl e \<Longrightarrow> \<exists>c. e = Runtime c"
proof (induction ds arbitrary: fs)
  case Nil
  then show ?case by simp
next
  case (Cons d ds)
  then show ?case
    by (cases "fs d") (auto split: node.splits if_splits)
qed

lemma writeFileSync_error: "writeFileSync fs p v = Inl e \<Longrightarrow> \<exists>c. e = Runtime c"
  by (auto simp: writeFileSync_def split: jsval.splits option.splits node.splits)

lemma unlinkSync_error: "unlinkSync fs p = Inl e \<Longrightarrow> \<exists>c. e = Runtime c"
  by (auto simp: unlinkSync_def split: option.splits node.splits)

lemma process_file_prefix_no_escape:
  assumes "prefix currentDir (path_resolve currentDir [currentDir, filename])"
    and "process_file currentDir
           (JObject [(''filename'', JString filename), (''new_content'', v)]) w = (Some e, w')"
  shows "\<exists>c. e = Runtime c"
proof (cases "v = JString []")
  case True
  with assms show ?thesis
    by (auto simp: process_file_def Let_def dest: unlinkSync_error
             split: if_splits sum.splits)
next
  case False
  with assms show ?thesis
    by (auto simp: process_file_def Let_def mkdirSync_def
             dest: mkdir_chain_error writeFileSync_error
             split: sum.splits)
qed

text \<open>
  Claim C3. There is an entry whose filename resolves to a path outside the working
  directory, at which no file exists, and which the File Writer accepts and writes: after
  it the file is there with the entry's content, and one line reports it. (The entry is
  \<^verbatim>\<open>../project/x\<close> in \<^verbatim>\<open>/home/u/proj\<close>.) The reason is general. Whenever the working
  directory is \<^verbatim>\<open>/\<close> followed by its segments, and the resolved path is the working
  directory's path followed by more text that does not start with a separator (a sibling
  whose name extends the directory's name), the resolved path is outside the working
  directory, the path-escape error is not raised, whatever the content, and a non-empty
  content is written there when the file system lets the directories be made and the
  file be written.
\<close>

theorem sibling_directory_accepted:
  "(\<exists>currentDir filename content w w'.
        \<not> inside_dir currentDir (path_resolve currentDir [currentDir, filename])
      \<and> files w (path_resolve currentDir [currentDir, filename]) = None
      \<and> process_file currentDir
           (JObject [(''filename'', JString filename), (''new_content'', JString content)]) w
           = (None, w')
      \<and> files w' (path_resolve currentDir [currentDir, filename]) = Some (File content)
      \<and> stdout w' = stdout w @ [''Wrote file: '' @ filename])
   \<and> (\<forall>segs currentDir filename filePath t v w.
        segs \<noteq> [] \<and> list_all (\<lambda>s. s \<noteq> [] \<and> CHR ''/'' \<notin> set s) segs
        \<and> currentDir = ''/'' @ join_path segs
        \<and> filePath = path_resolve currentDir [currentDir, filename]
        \<and> filePath = currentDir @ t \<and> t \<noteq> [] \<and> hd t \<noteq> CHR ''/''
        \<longrightarrow>
          \<not> inside_dir currentDir filePath
        \<and> fst (process_file currentDir
                 (JObject [(''filename'', JString filename), (''new_content'', v)]) w)
            \<noteq> Some (Thrown (''File path \"'' @ filename @ ''\" is outside the allowed directory.''))
        \<and> (\<forall>content fs1 fs2.
               v = JString content \<and> content \<noteq> []
             \<and> mkdirSync (files w) (path_dirname filePath) = Inr fs1
             \<and> writeFileSync fs1 filePath v = Inr fs2
             \<longrightarrow>
               process_file currentDir
                 (JObject [(''filename'', JString filename), (''new_content'', v)]) w
                 = (None, w\<lparr>files := fs2, stdout := stdout w @ [''Wrote file: '' @ filename]\<rparr>)
             \<and> fs2 filePath = Some (File content)))"
proof (intro conjI allI impI)
  have "\<not> inside_dir ''/home/u/proj''
          (path_resolve ''/home/u/proj'' [''/home/u/proj'', ''../project/x''])
    \<and> files w_proj (path_resolve ''/home/u/proj'' [''/home/u/proj'', ''../project/x'']) = None
    \<and> process_file ''/home/u/proj''
         (JObject [(''filename'', JString ''../project/x''), (''new_content'', JString ''hi'')])
         w_proj
         = (None, w_proj\<lparr>files := (files w_proj)(''/home/u/project'' \<mapsto> Dir,
                                                  ''/home/u/project/x'' \<mapsto> File ''hi''),
                         stdout := [''Wrote file: ../project/x'']\<rparr>)
    \<and> files (w_proj\<lparr>files := (files w_proj)(''/home/u/project'' \<mapsto> Dir,
                                             ''/home/u/project/x'' \<mapsto> File ''hi''),
                    stdout := [''Wrote file: ../project/x'']\<rparr>)
         (path_resolve ''/home/u/proj'' [''/home/u/proj'', ''../project/x''])
       = Some (File ''hi'')
    \<and> stdout (w_proj\<lparr>files := (files w_proj)(''/home/u/project'' \<mapsto> Dir,
                                             ''/home/u/project/x'' \<mapsto> File ''hi''),
                    stdout := [''Wrote file: ../project/x'']\<rparr>)
       = stdout w_proj @ [''Wrote file: '' @ ''../project/x'']"
    by (simp add: path_defs writer_defs w_proj_def)
  then show "\<exists>currentDir filename content w w'.
        \<not> inside_dir currentDir (path_resolve currentDir [currentDir, filename])
      \<and> files w (path_resolve currentDir [currentDir, filename]) = None
      \<and> process_file currentDir
           (JObject [(''filename'', JString filename), (''new_content'', JString content)]) w
           = (None, w')
      \<and> files w' (path_resolve currentDir [currentDir, filename]) = Some (File content)
      \<and> stdout w' = stdout w @ [''Wrote file: '' @ filename]"
    by blast
next
  fix segs currentDir filename filePath t v w
  assume h: "segs \<noteq> [] \<and> list_all (\<lambda>s. s \<noteq> [] \<and> CHR ''/'' \<notin> set s) segs
        \<and> currentDir = ''/'' @ join_path segs
        \<and> filePath = path_resolve currentDir [currentDir, filename]
        \<and> filePath = currentDir @ t \<and> t \<noteq> [] \<and> hd t \<noteq> CHR ''/''"
  then have h1: "segs \<noteq> []" "list_all (\<lambda>s. s \<noteq> [] \<and> CHR ''/'' \<notin> set s) segs"
    and cd: "currentDir = ''/'' @ join_path segs"
    and fp: "filePath = path_resolve currentDir [currentDir, filename]"
    and ext: "filePath = currentDir @ t" and t: "t \<noteq> []" "hd t \<noteq> CHR ''/''"
    by blast+
  from string_extension_outside [OF h1 t]
  show "\<not> inside_dir currentDir filePath"
    unfolding ext cd .
  let ?file = "JObject [(''filename'', JString filename), (''new_content'', v)]"
  from fp ext have pre: "prefix currentDir (path_resolve currentDir [currentDir, filename])"
    by (metis prefixI)
  show "fst (process_file currentDir ?file w)
          \<noteq> Some (Thrown (''File path \"'' @ filename @ ''\" is outside the allowed directory.''))"
  proof
    assume a: "fst (process_file currentDir ?file w)
          = Some (Thrown (''File path \"'' @ filename @ ''\" is outside the allowed directory.''))"
    then obtain w' where "process_file currentDir ?file w
          = (Some (Thrown (''File path \"'' @ filename @ ''\" is outside the allowed directory.'')), w')"
      by (cases "process_file currentDir ?file w") auto
    from process_file_prefix_no_escape [OF pre this] show False by simp
  qed
  fix content fs1 fs2
  assume w: "v = JString content \<and> content \<noteq> []
             \<and> mkdirSync (files w) (path_dirname filePath) = Inr fs1
             \<and> writeFileSync fs1 filePath v = Inr fs2"
  then have fs2: "fs2 = fs1(filePath \<mapsto> File content)"
    by (auto simp: writeFileSync_def split: option.splits node.splits)
  then show "fs2 filePath = Some (File content)" by simp
  from w have v: "v = JString content" and c: "content \<noteq> []"
    and mk: "mkdirSync (files w) (path_dirname filePath) = Inr fs1"
    and wr: "writeFileSync fs1 filePath (JString content) = Inr fs2"
    by auto
  from pre fp [symmetric] c mk wr show "process_file currentDir ?file w
                 = (None, w\<lparr>files := fs2, stdout := stdout w @ [''Wrote file: '' @ filename]\<rparr>)"
    unfolding v by (simp add: process_file_def)
qed

theorem sibling_directory_accepted_witness:
  "list_all (\<lambda>s. s \<noteq> [] \<and> CHR ''/'' \<notin> set s) [''home'', ''u'', ''proj'']
   \<and> ''/home/u/proj'' = ''/'' @ join_path [''home'', ''u'', ''proj'']
   \<and> path_resolve ''/home/u/proj'' [''/home/u/proj'', ''../project/x'']
       = ''/home/u/proj'' @ ''ect/x''
   \<and> files w_proj ''/home/u/project/x'' = None
   \<and> mkdirSync (files w_proj) (path_dirname ''/home/u/project/x'')
       = Inr ((files w_proj)(''/home/u/project'' \<mapsto> Dir))
   \<and> writeFileSync ((files w_proj)(''/home/u/project'' \<mapsto> Dir)) ''/home/u/project/x''
         (JString ''hi'')
       = Inr ((files w_proj)(''/home/u/project'' \<mapsto> Dir, ''/home/u/project/x'' \<mapsto> File ''hi''))
   \<and> \<not> inside_dir ''/home/u/proj'' ''/home/u/project/x''
   \<and> process_file ''/home/u/proj''
         (JObject [(''filename'', JString ''../project/x''), (''new_content'', JString ''hi'')])
         w_proj
       = (None, w_proj\<lparr>files := (files w_proj)(''/home/u/project'' \<mapsto> Dir,
                                                ''/home/u/project/x'' \<mapsto> File ''hi''),
                       stdout := stdout w_proj @ [''Wrote file: ../project/x'']\<rparr>)"
proof -
  have h1: "[''home'', ''u'', ''proj''] \<noteq> []
      \<and> list_all (\<lambda>s. s \<noteq> [] \<and> CHR ''/'' \<notin> set s) [''home'', ''u'', ''proj'']
      \<and> ''/home/u/proj'' = ''/'' @ join_path [''home'', ''u'', ''proj'']
      \<and> ''/home/u/project/x'' = path_resolve ''/home/u/proj'' [''/home/u/proj'', ''../project/x'']
      \<and> ''/home/u/project/x'' = ''/home/u/proj'' @ ''ect/x'' \<and> ''ect/x'' \<noteq> []
      \<and> hd ''ect/x'' \<noteq> CHR ''/''"
    by (simp add: path_defs)
  have h2: "JString ''hi'' = JString ''hi'' \<and> ''hi'' \<noteq> []
      \<and> mkdirSync (files w_proj) (path_dirname ''/home/u/project/x'')
          = Inr ((files w_proj)(''/home/u/project'' \<mapsto> Dir))
      \<and> writeFileSync ((files w_proj)(''/home/u/project'' \<mapsto> Dir)) ''/home/u/project/x''
            (JString ''hi'')
          = Inr ((files w_proj)(''/home/u/project'' \<mapsto> Dir,
                               ''/home/u/project/x'' \<mapsto> File ''hi''))"
    by (simp add: path_defs writer_defs w_proj_def)
  have f: "files w_proj ''/home/u/project/x'' = None"
    by (simp add: w_proj_def)
  note g = sibling_directory_accepted [THEN conjunct2, rule_format, OF h1,
             of "JString ''hi''" w_proj]
  from g have o: "\<not> inside_dir ''/home/u/proj'' ''/home/u/project/x''" by blast
  from g have "\<forall>content fs1 fs2.
               JString ''hi'' = JString content \<and> content \<noteq> []
             \<and> mkdirSync (files w_proj) (path_dirname ''/home/u/project/x'') = Inr fs1
             \<and> writeFileSync fs1 ''/home/u/project/x'' (JString ''hi'') = Inr fs2
             \<longrightarrow>
               process_file ''/home/u/proj''
                 (JObject [(''filename'', JString ''../project/x''),
                           (''new_content'', JString ''hi'')]) w_proj
                 = (None, w_proj\<lparr>files := fs2,
                      stdout := stdout w_proj @ [''Wrote file: '' @ ''../project/x'']\<rparr>)
             \<and> fs2 ''/home/u/project/x'' = Some (File ''hi'')"
    by blast
  from this [rule_format, OF h2] have p: "process_file ''/home/u/proj''
         (JObject [(''filename'', JString ''../project/x''), (''new_content'', JString ''hi'')])
         w_proj
       = (None, w_proj\<lparr>files := (files w_proj)(''/home/u/project'' \<mapsto> Dir,
                                                ''/home/u/project/x'' \<mapsto> File ''hi''),
                       stdout := stdout w_proj @ [''Wrote file: ../project/x'']\<rparr>)"
    by simp
  from h1 have r: "path_resolve ''/home/u/proj'' [''/home/u/proj'', ''../project/x'']
       = ''/home/u/proj'' @ ''ect/x''" by simp
  from h1 h2 f o p r show ?thesis by blast
qed

text \<open>
  Claim C6. For an entry that passes the containment test and whose \<^verbatim>\<open>new_content\<close> is
  the empty string: if the target is an existing file, the File Writer removes it, logs one
  deletion line and goes on with the next entry; if nothing exists at the target, it
  changes nothing, raises no error and goes on with the next entry.
\<close>

theorem empty_content_deletes:
  assumes "get_prop file ''filename'' = Inr (JString filename)"
    and "get_prop file ''new_content'' = Inr (JString [])"
    and "filePath = path_resolve currentDir [currentDir, filename]"
    and "prefix currentDir filePath"
  shows "(\<forall>c. files w filePath = Some (File c) \<longrightarrow>
            process_file currentDir file w =
              (None, w\<lparr>files := (files w)(filePath := None),
                       stdout := stdout w @ [''Deleted empty file: '' @ filename]\<rparr>)
          \<and> forEach_file currentDir (file # rest) w =
              forEach_file currentDir rest
                (w\<lparr>files := (files w)(filePath := None),
                   stdout := stdout w @ [''Deleted empty file: '' @ filename]\<rparr>))
       \<and> (files w filePath = None \<longrightarrow>
            process_file currentDir file w = (None, w)
          \<and> forEach_file currentDir (file # rest) w = forEach_file currentDir rest w)"
  using assms
  by (simp add: process_file_def existsSync_def unlinkSync_def)

theorem empty_content_deletes_witness:
  "files w_proj ''/home/u/proj/old.md'' = Some (File ''old'')
   \<and> forEach_file ''/home/u/proj''
       [JObject [(''filename'', JString ''old.md''), (''new_content'', JString [])]] w_proj
     = (None, w_proj\<lparr>files := (files w_proj)(''/home/u/proj/old.md'' := None),
                     stdout := [''Deleted empty file: old.md'']\<rparr>)
   \<and> files w_proj ''/home/u/proj/none.md'' = None
   \<and> forEach_file ''/home/u/proj''
       [JObject [(''filename'', JString ''none.md''), (''new_content'', JString [])]] w_proj
     = (None, w_proj)"
proof -
  have p1: "''/home/u/proj/old.md'' = path_resolve ''/home/u/proj'' [''/home/u/proj'', ''old.md'']"
    and p2: "''/home/u/proj/none.md'' = path_resolve ''/home/u/proj'' [''/home/u/proj'', ''none.md'']"
    by (simp_all add: path_defs)
  have f1: "files w_proj ''/home/u/proj/old.md'' = Some (File ''old'')"
    and f2: "files w_proj ''/home/u/proj/none.md'' = None"
    by (simp_all add: w_proj_def)
  from empty_content_deletes
         [of "JObject [(''filename'', JString ''old.md''), (''new_content'', JString [])]"
             "''old.md''" "''/home/u/proj/old.md''" "''/home/u/proj''" w_proj "[]", OF _ _ p1]
       empty_content_deletes
         [of "JObject [(''filename'', JString ''none.md''), (''new_content'', JString [])]"
             "''none.md''" "''/home/u/proj/none.md''" "''/home/u/proj''" w_proj "[]", OF _ _ p2]
       f1 f2
  show ?thesis by (simp add: w_proj_def)
qed

text \<open>
  Claim C10. For an entry that passes the containment test and whose \<^verbatim>\<open>new_content\<close> is
  absent or is not a string: the File Writer takes the write branch, creates the missing
  parent directories (nothing that existed is removed), and the write throws; the batch
  ends with exit code 1, and the world it leaves is the one that the earlier entries and
  the directory creation made.
\<close>

theorem non_string_content_aborts:
  assumes "get_prop file ''filename'' = Inr (JString filename)"
    and "filePath = path_resolve currentDir [currentDir, filename]"
    and "prefix currentDir filePath"
    and "get_prop file ''new_content'' = Inr v"
    and "\<not> (\<exists>s. v = JString s)"
    and "mkdirSync (files w) (path_dirname filePath) = Inr fs1"
    and "get_prop data ''files'' = Inr (JArray (earlier @ file # rest))"
    and "forEach_file currentDir earlier w0 = (None, w)"
  shows "process_file currentDir file w =
           (Some (Runtime ''ERR_INVALID_ARG_TYPE''), w\<lparr>files := fs1\<rparr>)
       \<and> write_files currentDir (Inr data) w0 =
           \<lparr>exit_code = 1,
            final = w\<lparr>files := fs1,
                      stderr := stderr w @ [''Error: ERR_INVALID_ARG_TYPE'']\<rparr>\<rparr>
       \<and> (\<forall>p n. files w p = Some n \<longrightarrow> fs1 p = Some n)"
proof -
  from assms(5) have nostr: "v \<noteq> JString []" by blast
  from assms(5) have w: "writeFileSync fs1 filePath v = Inl (Runtime ''ERR_INVALID_ARG_TYPE'')"
    by (cases v) (simp_all add: writeFileSync_def)
  have pf: "process_file currentDir file w =
           (Some (Runtime ''ERR_INVALID_ARG_TYPE''), w\<lparr>files := fs1\<rparr>)"
    using assms(1-4,6) nostr w by (simp add: process_file_def)
  have "forEach_file currentDir (earlier @ file # rest) w0 =
          (Some (Runtime ''ERR_INVALID_ARG_TYPE''), w\<lparr>files := fs1\<rparr>)"
    using assms(8) pf by (simp add: forEach_file_append)
  with assms(7) have wf: "write_files currentDir (Inr data) w0 =
           \<lparr>exit_code = 1,
            final = w\<lparr>files := fs1,
                      stderr := stderr w @ [''Error: ERR_INVALID_ARG_TYPE'']\<rparr>\<rparr>"
    by (simp add: write_files_def try_body_def)
  have "\<forall>p n. files w p = Some n \<longrightarrow> fs1 p = Some n"
    using assms(6) mkdir_chain_keeps unfolding mkdirSync_def by blast
  with pf wf show ?thesis by simp
qed

theorem non_string_content_aborts_witness:
  "get_prop (JObject [(''filename'', JString ''docs/b.md'')]) ''new_content'' = Inr JUndefined
   \<and> prefix ''/home/u/proj'' (path_resolve ''/home/u/proj'' [''/home/u/proj'', ''docs/b.md''])
   \<and> exit_code (write_files ''/home/u/proj'' (Inr batch) w_proj) = 1
   \<and> files (final (write_files ''/home/u/proj'' (Inr batch) w_proj)) ''/home/u/proj/a.md''
       = Some (File ''A'')
   \<and> files (final (write_files ''/home/u/proj'' (Inr batch) w_proj)) ''/home/u/proj/docs''
       = Some Dir
   \<and> files (final (write_files ''/home/u/proj'' (Inr batch) w_proj)) ''/home/u/proj/docs/b.md''
       = None
   \<and> files (final (write_files ''/home/u/proj'' (Inr batch) w_proj)) ''/home/u/proj/c.md''
       = None
   \<and> stderr (final (write_files ''/home/u/proj'' (Inr batch) w_proj))
       = [''Error: ERR_INVALID_ARG_TYPE'']"
proof -
  let ?w = "w_proj\<lparr>files := (files w_proj)(''/home/u/proj/a.md'' \<mapsto> File ''A''),
                   stdout := [''Wrote file: a.md'']\<rparr>"
  let ?fs1 = "(files ?w)(''/home/u/proj/docs'' \<mapsto> Dir)"
  have h1: "get_prop (JObject [(''filename'', JString ''docs/b.md'')]) ''filename''
              = Inr (JString ''docs/b.md'')"
    and h4: "get_prop (JObject [(''filename'', JString ''docs/b.md'')]) ''new_content''
              = Inr JUndefined"
    and h5: "\<not> (\<exists>s. JUndefined = JString s)"
    by simp_all
  have h2: "path_resolve ''/home/u/proj'' [''/home/u/proj'', ''docs/b.md''] = ''/home/u/proj/docs/b.md''"
    by (simp add: path_defs)
  have h3: "prefix ''/home/u/proj'' ''/home/u/proj/docs/b.md''"
    by simp
  have h6: "mkdirSync (files ?w) (path_dirname ''/home/u/proj/docs/b.md'') = Inr ?fs1"
    by (simp add: path_defs mkdirSync_def w_proj_def)
  have h7: "get_prop batch ''files'' =
      Inr (JArray ([JObject [(''filename'', JString ''a.md''), (''new_content'', JString ''A'')]]
            @ JObject [(''filename'', JString ''docs/b.md'')]
            # [JObject [(''filename'', JString ''c.md''), (''new_content'', JString ''C'')]]))"
    by (simp add: batch_def)
  have h8: "forEach_file ''/home/u/proj''
      [JObject [(''filename'', JString ''a.md''), (''new_content'', JString ''A'')]] w_proj
       = (None, ?w)"
    by (simp add: path_defs writer_defs w_proj_def)
  from non_string_content_aborts [OF h1 h2 [symmetric] h3 h4 h5 h6 h7 h8] h4 h2 h3
  show ?thesis by (simp add: w_proj_def)
qed

section \<open>Properties of the Commit Replay Driver\<close>

lemma self_in_ancestors: "c \<in> set (ancestors_or_self c)"
  by (cases c) simp

lemma ancestors_size:
  "c \<in> set (ancestors_or_self b) \<Longrightarrow> c = b \<or> size c < size b"
proof (induction b)
  case (Commit t ps m d)
  show ?case
  proof (cases "c = Commit t ps m d")
    case True
    then show ?thesis by simp
  next
    case False
    with Commit.prems obtain p where p: "p \<in> set ps" "c \<in> set (ancestors_or_self p)"
      by auto
    with Commit.IH have "c = p \<or> size c < size p" by blast
    moreover from p(1) have "size p < size (Commit t ps m d)"
      by (induction ps) auto
    ultimately show ?thesis by auto
  qed
qed

lemma ancestors_parents:
  "c \<in> set (ancestors_or_self b) \<Longrightarrow> p \<in> set (parents c) \<Longrightarrow> p \<in> set (ancestors_or_self b)"
proof (induction b)
  case (Commit t ps m d)
  show ?case
  proof (cases "c = Commit t ps m d")
    case True
    with Commit.prems(2) have "p \<in> set ps" by simp
    with self_in_ancestors [of p] show ?thesis by auto
  next
    case False
    with Commit.prems(1) obtain q where q: "q \<in> set ps" "c \<in> set (ancestors_or_self q)"
      by auto
    with Commit.IH Commit.prems(2) have "p \<in> set (ancestors_or_self q)" by blast
    with q(1) show ?thesis by auto
  qed
qed

lemma set_insert_by_date: "set (insert_by_date c q) = insert c (set q)"
  by (induction q) auto

lemma set_add_parents:
  "set (fst (fold add_parent ps (q, seen))) \<subseteq> set ps \<union> set q"
proof (induction ps arbitrary: q seen)
  case Nil
  then show ?case by simp
next
  case (Cons p ps)
  show ?case
  proof (cases "p \<in> set seen")
    case True
    with Cons.IH [of q seen] show ?thesis by (auto simp: add_parent_def)
  next
    case False
    with Cons.IH [of "insert_by_date p q" "p # seen"] show ?thesis
      by (auto simp: add_parent_def set_insert_by_date)
  qed
qed

lemma rev_list_walk_ancestors:
  "set q \<subseteq> set (ancestors_or_self b) \<Longrightarrow>
     set (rev_list_walk q seen) \<subseteq> set (ancestors_or_self b)"
proof (induction q seen rule: rev_list_walk.induct)
  case (1 seen)
  then show ?case by simp
next
  case (2 c queue seen)
  from "2.prems" have c: "c \<in> set (ancestors_or_self b)" by simp
  then have "set (parents c) \<subseteq> set (ancestors_or_self b)"
    using ancestors_parents by blast
  with "2.prems" set_add_parents [of "parents c" queue seen]
  have "set (fst (fold add_parent (parents c) (queue, seen))) \<subseteq> set (ancestors_or_self b)"
    by auto
  from "2.IH" [OF this] c show ?case by simp
qed

lemma rev_list_ancestors: "set (rev_list b) \<subseteq> set (ancestors_or_self b)"
  unfolding rev_list_def
  by (rule rev_list_walk_ancestors) (simp add: self_in_ancestors)

lemma ancestry_path_self: "ancestry_path b b = []"
proof -
  have "\<not> (c \<noteq> b \<and> b \<in> set (ancestors_or_self c))" if "c \<in> set (rev_list b)" for c
  proof
    assume a: "c \<noteq> b \<and> b \<in> set (ancestors_or_self c)"
    from that rev_list_ancestors have "c \<in> set (ancestors_or_self b)" by blast
    with a ancestors_size [of c b] ancestors_size [of b c] show False by auto
  qed
  then show ?thesis
    unfolding ancestry_path_def by (simp add: filter_empty_conv)
qed


lemma refs_distinct: "base_ref \<noteq> tracking_ref"
  by (simp add: base_ref_def tracking_ref_def base_branch_def tracking_branch_def)

lemma switch_tree_absorb:
  assumes "\<forall>p. t p = None \<and> index r p = None \<longrightarrow> worktree r p = None"
  shows "switch_tree r t = r\<lparr>index := t, worktree := t\<rparr>"
proof -
  have "(\<lambda>p. case t p of Some c \<Rightarrow> Some c
              | None \<Rightarrow> if index r p \<noteq> None then None else worktree r p) = t"
    using assms by (auto simp: fun_eq_iff split: option.splits)
  then show ?thesis by (simp add: switch_tree_def)
qed

lemma switch_tree_clean:
  "worktree r = index r \<Longrightarrow> switch_tree r t = r\<lparr>index := t, worktree := t\<rparr>"
  by (rule switch_tree_absorb) simp

lemma on_tracking_clean: "status_clean (on_tracking rs n)"
  by (simp add: on_tracking_def status_clean_def head_tree_def head_commit_def)

lemma commit_generated_on_branch:
  assumes "HEAD r = OnBranch tracking_ref"
    and "\<forall>p. \<not> prefix ''docs/'' p \<and> index r p = None \<longrightarrow> wt p = None"
  shows "commit_generated env (r\<lparr>worktree := wt\<rparr>) s lg =
           on_tracking (refs r)
             (new_generated_commit env
                (stage_docs wt (index r)) s lg)"
proof -
  let ?T = "stage_docs wt (index r)"
  let ?n = "new_generated_commit env ?T s lg"
  let ?r2 = "update_ref (update_ref (r\<lparr>worktree := wt, index := ?T\<rparr>) tracking_ref ?n)
               tracking_ref ?n"
  have tn: "tree_of ?n = ?T"
    by (simp add: new_generated_commit_def)
  have "commit_generated env (r\<lparr>worktree := wt\<rparr>) s lg = switch_tree ?r2 (tree_of ?n)"
    using assms(1)
    by (simp add: commit_generated_def git_add_docs_def reset_hard_def update_ref_def Let_def)
  also have "\<dots> = ?r2\<lparr>index := tree_of ?n, worktree := tree_of ?n\<rparr>"
  proof (rule switch_tree_absorb)
    show "\<forall>p. tree_of ?n p = None \<and> index ?r2 p = None \<longrightarrow> worktree ?r2 p = None"
      using assms(2) by (auto simp: tn update_ref_def stage_docs_def split: if_splits)
  qed
  also have "\<dots> = on_tracking (refs r) ?n"
    using assms(1) by (cases r) (simp add: update_ref_def on_tracking_def)
  finally show ?thesis .
qed

lemma driver_initialize:
  assumes "status_clean r" and "refs r tracking_ref = None"
    and "first_commit_on_base r = Some s" and "generation_ok env"
  shows "driver env r =
     \<lparr>status = 0,
      repo_after = on_tracking (refs r)
        (new_generated_commit env
           (stage_docs (snd (generate env s (tree_of s))) (tree_of s)) s None),
      echoed = [''Tracking branch gen-commits does not exist, creating it...'',
                ''Processed and committed '' @ sha env s @ ''. Tracking branch updated.'']\<rparr>"
proof -
  let ?r1 = "\<lparr>refs = (refs r)(tracking_ref \<mapsto> s), HEAD = OnBranch tracking_ref,
              index = tree_of s, worktree = tree_of s\<rparr>"
  from assms(1) have wi: "worktree r = index r" by (simp add: status_clean_def)
  have eb: "ensure_branch r =
          (?r1, [''Tracking branch gen-commits does not exist, creating it...''], None, Unset)"
    using assms(2,3) wi
    by (cases r) (simp add: ensure_branch_def checkout_b_def update_ref_def
                    switch_tree_clean tracking_branch_def)
  have sel: "select_start_commit ?r1 None Unset = Some s"
    using assms(3) refs_distinct
    by (simp add: select_start_commit_def first_commit_on_base_def)
  obtain rc wt where g: "generate env s (tree_of s) = (rc, wt)"
    by (cases "generate env s (tree_of s)")
  with assms(4) have rc: "rc = 0"
    and wt: "\<forall>p. \<not> prefix ''docs/'' p \<and> tree_of s p = None \<longrightarrow> wt p = None"
    unfolding generation_ok_def by (metis fst_conv, metis snd_conv)
  have cg: "commit_generated env (?r1\<lparr>worktree := wt\<rparr>) s None =
           on_tracking (refs ?r1)
             (new_generated_commit env
                (stage_docs wt (index ?r1)) s None)"
    by (rule commit_generated_on_branch) (simp_all add: wt)
  have cg': "commit_generated env (?r1\<lparr>worktree := wt\<rparr>) s None =
           on_tracking (refs r)
             (new_generated_commit env
                (stage_docs wt (tree_of s)) s None)"
    unfolding cg by (simp add: on_tracking_def)
  show ?thesis
    using assms(1) eb sel g rc cg' by (simp add: driver_def)
qed


lemma driver_resume:
  assumes "status_clean r" and "refs r tracking_ref = Some g"
    and "parents g = lb # ps" and "refs r base_ref = Some b"
    and "reverse_head_1 (ancestry_path lb b) = Some s" and "generation_ok env"
  shows "driver env r =
     \<lparr>status = 0,
      repo_after = on_tracking (refs r)
        (new_generated_commit env
           (stage_docs (snd (generate env s (tree_of g))) (tree_of g)) s (Some g)),
      echoed = [''Tracking branch gen-commits found, checking out...'',
                ''Processed and committed '' @ sha env s @ ''. Tracking branch updated.'']\<rparr>"
proof -
  let ?r1 = "r\<lparr>HEAD := OnBranch tracking_ref, index := tree_of g, worktree := tree_of g\<rparr>"
  from assms(1) have wi: "worktree r = index r" by (simp add: status_clean_def)
  have eb: "ensure_branch r =
          (?r1, [''Tracking branch gen-commits found, checking out...''], Some g, Hash lb)"
    using assms(2,3) wi
    by (simp add: ensure_branch_def checkout_def switch_tree_clean tracking_branch_def
          rev_parse_first_parent_def)
  have sel: "select_start_commit ?r1 (Some g) (Hash lb) = Some s"
    using assms(4,5)
    by (simp add: select_start_commit_def next_commit_on_base_def)
  obtain rc wt where g: "generate env s (tree_of g) = (rc, wt)"
    by (cases "generate env s (tree_of g)")
  with assms(6) have rc: "rc = 0"
    and wt: "\<forall>p. \<not> prefix ''docs/'' p \<and> tree_of g p = None \<longrightarrow> wt p = None"
    unfolding generation_ok_def by (metis fst_conv, metis snd_conv)
  have cg: "commit_generated env (?r1\<lparr>worktree := wt\<rparr>) s (Some g) =
           on_tracking (refs ?r1)
             (new_generated_commit env (stage_docs wt (index ?r1)) s (Some g))"
    by (rule commit_generated_on_branch) (simp_all add: wt)
  show ?thesis
    using assms(1) eb sel g rc cg by (simp add: driver_def)
qed

lemma driver_caught_up:
  assumes "status_clean r" and "HEAD r = OnBranch tracking_ref"
    and "refs r tracking_ref = Some g" and "parents g = b # ps"
    and "refs r base_ref = Some b"
  shows "driver env r =
     \<lparr>status = 0, repo_after = r,
      echoed = [''Tracking branch gen-commits found, checking out...'',
                ''No new commits to process. All caught up.'']\<rparr>"
proof -
  from assms(1,2,3) have "index r = tree_of g" and "worktree r = tree_of g"
    by (simp_all add: status_clean_def head_tree_def head_commit_def)
  with assms(2) have same: "checkout r g = r"
    by (cases r) (simp add: checkout_def switch_tree_clean)
  have eb: "ensure_branch r =
          (r, [''Tracking branch gen-commits found, checking out...''], Some g, Hash b)"
    using assms(3,4) same
    by (simp add: ensure_branch_def tracking_branch_def rev_parse_first_parent_def)
  have sel: "select_start_commit r (Some g) (Hash b) = None"
    using assms(5)
    by (simp add: select_start_commit_def next_commit_on_base_def ancestry_path_self
          reverse_head_1_def)
  show ?thesis
    using assms(1) eb sel by (simp add: driver_def)
qed

lemma switch_tree_HEAD: "HEAD (switch_tree r t) = HEAD r"
  by (simp add: switch_tree_def)

lemma ensure_branch_HEAD:
  "ensure_branch r = (r1, out, lg, lb) \<Longrightarrow> HEAD r1 = OnBranch tracking_ref"
  by (auto simp: ensure_branch_def checkout_b_def checkout_def switch_tree_HEAD update_ref_def
           split: option.splits)

lemma commit_generated_HEAD:
  "HEAD r = OnBranch tracking_ref \<Longrightarrow>
     HEAD (commit_generated env r s lg) = OnBranch tracking_ref"
  by (simp add: commit_generated_def git_add_docs_def reset_hard_def update_ref_def
        switch_tree_HEAD Let_def)

lemma driver_success_HEAD:
  assumes "status (driver env r) = 0"
  shows "HEAD (repo_after (driver env r)) = OnBranch tracking_ref"
proof -
  obtain r1 out lg lb where eb: "ensure_branch r = (r1, out, lg, lb)"
    by (cases "ensure_branch r") auto
  then have h: "HEAD r1 = OnBranch tracking_ref" by (rule ensure_branch_HEAD)
  from assms have c: "status_clean r"
    by (auto simp: driver_def split: if_splits)
  show ?thesis
  proof (cases "select_start_commit r1 lg lb")
    case None
    with c eb h show ?thesis by (simp add: driver_def)
  next
    case (Some s)
    obtain rc wt where g: "generate env s (worktree r1) = (rc, wt)"
      by (cases "generate env s (worktree r1)")
    with assms c eb Some have "rc = 0"
      by (auto simp: driver_def split: if_splits)
    with c eb Some g h show ?thesis
      by (simp add: driver_def commit_generated_HEAD)
  qed
qed


lemma chain_of_three:
  assumes "c1 = Commit t1 [] m1 d1" and "c2 = Commit t2 [c1] m2 d2"
    and "c3 = Commit t3 [c2] m3 d3"
  shows "reverse_head_1 (rev_list c3) = Some c1"
    and "reverse_head_1 (ancestry_path c1 c3) = Some c2"
    and "reverse_head_1 (ancestry_path c2 c3) = Some c3"
  using assms
  by (simp_all add: rev_list_def add_parent_def ancestry_path_def reverse_head_1_def)

lemma on_tracking_refs:
  "refs (on_tracking rs n) tracking_ref = Some n"
  "refs (on_tracking rs n) base_ref = rs base_ref"
  "HEAD (on_tracking rs n) = OnBranch tracking_ref"
  using refs_distinct by (simp_all add: on_tracking_def)

lemma parents_new_generated_commit:
  "parents (new_generated_commit env t s None) = [s]"
  "parents (new_generated_commit env t s (Some g)) = [s, g]"
  by (simp_all add: new_generated_commit_def)

text \<open>
  Claim C1. The base branch holds the commits \<open>c1\<close>, \<open>c2\<close>, \<open>c3\<close>, oldest first, there is no
  tracking branch, the working tree is clean, and the generation command behaves. Then
  three runs of the driver in a row each exit with 0 and leave the tracking branch at
  commits \<open>g1\<close> with parents \<open>[c1]\<close>, \<open>g2\<close> with parents \<open>[c2, g1]\<close> and \<open>g3\<close> with parents
  \<open>[c3, g2]\<close>; a fourth run exits with 0, reports that there is nothing new, and leaves the
  repository as it was.
\<close>

theorem three_runs_then_noop:
  assumes "c1 = Commit t1 [] m1 d1" and "c2 = Commit t2 [c1] m2 d2"
    and "c3 = Commit t3 [c2] m3 d3"
    and "refs r0 base_ref = Some c3" and "refs r0 tracking_ref = None"
    and "status_clean r0"
    and "generation_ok e1" and "generation_ok e2" and "generation_ok e3"
    and "r1 = repo_after (driver e1 r0)" and "r2 = repo_after (driver e2 r1)"
    and "r3 = repo_after (driver e3 r2)"
  shows "\<exists>g1 g2 g3.
           status (driver e1 r0) = 0 \<and> refs r1 tracking_ref = Some g1 \<and> parents g1 = [c1]
         \<and> status (driver e2 r1) = 0 \<and> refs r2 tracking_ref = Some g2 \<and> parents g2 = [c2, g1]
         \<and> status (driver e3 r2) = 0 \<and> refs r3 tracking_ref = Some g3 \<and> parents g3 = [c3, g2]
         \<and> driver e4 r3 =
             \<lparr>status = 0, repo_after = r3,
              echoed = [''Tracking branch gen-commits found, checking out...'',
                        ''No new commits to process. All caught up.'']\<rparr>"
proof -
  note chain = chain_of_three [OF assms(1-3)]
  define g1 where
    "g1 = new_generated_commit e1 (stage_docs (snd (generate e1 c1 (tree_of c1))) (tree_of c1)) c1 None"
  define g2 where
    "g2 = new_generated_commit e2 (stage_docs (snd (generate e2 c2 (tree_of g1))) (tree_of g1)) c2 (Some g1)"
  define g3 where
    "g3 = new_generated_commit e3 (stage_docs (snd (generate e3 c3 (tree_of g2))) (tree_of g2)) c3 (Some g2)"
  have first: "first_commit_on_base r0 = Some c1"
    using assms(4) chain(1) by (simp add: first_commit_on_base_def)
  have run1: "driver e1 r0 =
     \<lparr>status = 0, repo_after = on_tracking (refs r0) g1,
      echoed = [''Tracking branch gen-commits does not exist, creating it...'',
                ''Processed and committed '' @ sha e1 c1 @ ''. Tracking branch updated.'']\<rparr>"
    unfolding g1_def by (rule driver_initialize [OF assms(6) assms(5) first assms(7)])
  then have r1: "r1 = on_tracking (refs r0) g1"
    using assms(10) by simp
  have p1: "parents g1 = c1 # []"
    by (simp add: g1_def parents_new_generated_commit)
  have b1: "refs r1 base_ref = Some c3"
    using assms(4) by (simp add: r1 on_tracking_refs)
  have run2: "driver e2 r1 =
     \<lparr>status = 0, repo_after = on_tracking (refs r1) g2,
      echoed = [''Tracking branch gen-commits found, checking out...'',
                ''Processed and committed '' @ sha e2 c2 @ ''. Tracking branch updated.'']\<rparr>"
    unfolding g2_def
    by (rule driver_resume [OF _ _ p1 b1 chain(2) assms(8)])
       (simp_all add: r1 on_tracking_clean on_tracking_refs)
  then have r2: "r2 = on_tracking (refs r1) g2"
    using assms(11) by simp
  have p2: "parents g2 = c2 # [g1]"
    by (simp add: g2_def parents_new_generated_commit)
  have b2: "refs r2 base_ref = Some c3"
    using b1 by (simp add: r2 on_tracking_refs)
  have run3: "driver e3 r2 =
     \<lparr>status = 0, repo_after = on_tracking (refs r2) g3,
      echoed = [''Tracking branch gen-commits found, checking out...'',
                ''Processed and committed '' @ sha e3 c3 @ ''. Tracking branch updated.'']\<rparr>"
    unfolding g3_def
    by (rule driver_resume [OF _ _ p2 b2 chain(3) assms(9)])
       (simp_all add: r2 on_tracking_clean on_tracking_refs)
  then have r3: "r3 = on_tracking (refs r2) g3"
    using assms(12) by simp
  have p3: "parents g3 = c3 # [g2]"
    by (simp add: g3_def parents_new_generated_commit)
  have b3: "refs r3 base_ref = Some c3"
    using b2 by (simp add: r3 on_tracking_refs)
  have run4: "driver e4 r3 =
     \<lparr>status = 0, repo_after = r3,
      echoed = [''Tracking branch gen-commits found, checking out...'',
                ''No new commits to process. All caught up.'']\<rparr>"
    by (rule driver_caught_up [OF _ _ _ p3 b3])
       (simp_all add: r3 on_tracking_clean on_tracking_refs)
  have s: "status (driver e1 r0) = 0" "status (driver e2 r1) = 0" "status (driver e3 r2) = 0"
    by (simp_all add: run1 run2 run3)
  have t: "refs r1 tracking_ref = Some g1" "refs r2 tracking_ref = Some g2"
    "refs r3 tracking_ref = Some g3"
    unfolding r1 r2 r3 by (simp_all add: on_tracking_refs)
  from s t p1 p2 p3 run4 show ?thesis by blast
qed

lemma ref_names:
  "base_ref = ''refs/remotes/origin/main''" "tracking_ref = ''refs/heads/gen-commits''"
  by (simp_all add: base_ref_def tracking_ref_def base_branch_def tracking_branch_def)

lemma generation_ok_env_gen: "generation_ok env_gen"
  by (auto simp: generation_ok_def env_gen_def)

lemma repo_start_facts:
  "status_clean repo_start"
  "refs repo_start tracking_ref = None"
  "refs repo_start base_ref = Some commit_3"
  by (simp_all add: repo_start_def status_clean_def head_tree_def head_commit_def ref_names
        commit_3_def)

lemma example_chain:
  "reverse_head_1 (rev_list commit_3) = Some commit_1"
  "reverse_head_1 (ancestry_path commit_1 commit_3) = Some commit_2"
  "reverse_head_1 (ancestry_path commit_2 commit_3) = Some commit_3"
  by (rule chain_of_three [OF commit_1_def commit_2_def commit_3_def])+

lemma example_run_1:
  "driver env_gen repo_start =
     \<lparr>status = 0, repo_after = on_tracking (refs repo_start) gen_1,
      echoed = [''Tracking branch gen-commits does not exist, creating it...'',
                ''Processed and committed first. Tracking branch updated.'']\<rparr>"
proof -
  have "first_commit_on_base repo_start = Some commit_1"
    by (simp add: first_commit_on_base_def repo_start_facts example_chain)
  from driver_initialize [OF repo_start_facts(1,2) this generation_ok_env_gen]
  show ?thesis
    by (simp add: gen_1_def) (simp add: env_gen_def commit_1_def)
qed

lemma run_1_eq: "run_1 = on_tracking (refs repo_start) gen_1"
  by (simp add: run_1_def example_run_1)

lemma example_run_2:
  "driver env_gen run_1 =
     \<lparr>status = 0, repo_after = on_tracking (refs run_1) gen_2,
      echoed = [''Tracking branch gen-commits found, checking out...'',
                ''Processed and committed second. Tracking branch updated.'']\<rparr>"
proof -
  have p: "parents gen_1 = commit_1 # []"
    by (simp add: gen_1_def parents_new_generated_commit)
  have b: "refs run_1 base_ref = Some commit_3"
    by (simp add: run_1_eq on_tracking_refs repo_start_facts)
  have c: "status_clean run_1" and t: "refs run_1 tracking_ref = Some gen_1"
    by (simp_all add: run_1_eq on_tracking_clean on_tracking_refs)
  from driver_resume [OF c t p b example_chain(2) generation_ok_env_gen]
  show ?thesis
    by (simp add: gen_2_def) (simp add: env_gen_def commit_2_def)
qed

lemma run_2_eq: "run_2 = on_tracking (refs run_1) gen_2"
  by (simp add: run_2_def example_run_2)

lemma example_run_3:
  "driver env_gen run_2 =
     \<lparr>status = 0, repo_after = on_tracking (refs run_2) gen_3,
      echoed = [''Tracking branch gen-commits found, checking out...'',
                ''Processed and committed third. Tracking branch updated.'']\<rparr>"
proof -
  have p: "parents gen_2 = commit_2 # [gen_1]"
    by (simp add: gen_2_def parents_new_generated_commit)
  have b: "refs run_2 base_ref = Some commit_3"
    by (simp add: run_2_eq run_1_eq on_tracking_refs repo_start_facts)
  have c: "status_clean run_2" and t: "refs run_2 tracking_ref = Some gen_2"
    by (simp_all add: run_2_eq on_tracking_clean on_tracking_refs)
  from driver_resume [OF c t p b example_chain(3) generation_ok_env_gen]
  show ?thesis
    by (simp add: gen_3_def) (simp add: env_gen_def commit_3_def)
qed

lemma run_3_eq: "run_3 = on_tracking (refs run_2) gen_3"
  by (simp add: run_3_def example_run_3)

theorem three_runs_then_noop_witness:
  "refs repo_start base_ref = Some commit_3 \<and> refs repo_start tracking_ref = None
   \<and> status_clean repo_start \<and> generation_ok env_gen
   \<and> status (driver env_gen repo_start) = 0
   \<and> refs run_1 tracking_ref = Some gen_1 \<and> parents gen_1 = [commit_1]
   \<and> status (driver env_gen run_1) = 0
   \<and> refs run_2 tracking_ref = Some gen_2 \<and> parents gen_2 = [commit_2, gen_1]
   \<and> status (driver env_gen run_2) = 0
   \<and> refs run_3 tracking_ref = Some gen_3 \<and> parents gen_3 = [commit_3, gen_2]
   \<and> driver env_gen run_3 =
        \<lparr>status = 0, repo_after = run_3,
         echoed = [''Tracking branch gen-commits found, checking out...'',
                   ''No new commits to process. All caught up.'']\<rparr>"
proof -
  from three_runs_then_noop
    [OF commit_1_def commit_2_def commit_3_def repo_start_facts(3) repo_start_facts(2)
        repo_start_facts(1) generation_ok_env_gen generation_ok_env_gen generation_ok_env_gen
        run_1_def run_2_def run_3_def, of env_gen]
  obtain g1 g2 g3 where
    h: "status (driver env_gen repo_start) = 0" "refs run_1 tracking_ref = Some g1"
       "parents g1 = [commit_1]"
       "status (driver env_gen run_1) = 0" "refs run_2 tracking_ref = Some g2"
       "parents g2 = [commit_2, g1]"
       "status (driver env_gen run_2) = 0" "refs run_3 tracking_ref = Some g3"
       "parents g3 = [commit_3, g2]"
       "driver env_gen run_3 =
        \<lparr>status = 0, repo_after = run_3,
         echoed = [''Tracking branch gen-commits found, checking out...'',
                   ''No new commits to process. All caught up.'']\<rparr>"
    by blast
  have "g1 = gen_1" "g2 = gen_2" "g3 = gen_3"
    using h(2,5,8) by (simp_all add: run_1_eq run_2_eq run_3_eq on_tracking_refs)
  with h repo_start_facts generation_ok_env_gen show ?thesis by simp
qed

text \<open>
  Claim C8. When \<^verbatim>\<open>git status --porcelain\<close> reports anything at the start, the driver
  exits with code 1 after its error line and the repository (refs, \<^verbatim>\<open>HEAD\<close>, index,
  working tree) is exactly as before.
\<close>

theorem dirty_tree_rejected:
  assumes "\<not> status_clean r"
  shows "driver env r =
     \<lparr>status = 1, repo_after = r,
      echoed = [''Error: Working directory is not clean. Please commit or stash your changes before running this script.'']\<rparr>"
  using assms by (simp add: driver_def)

theorem dirty_tree_rejected_witness:
  "\<not> status_clean repo_dirty
   \<and> driver env_gen repo_dirty =
     \<lparr>status = 1, repo_after = repo_dirty,
      echoed = [''Error: Working directory is not clean. Please commit or stash your changes before running this script.'']\<rparr>"
proof -
  have "worktree repo_dirty ''notes.txt'' \<noteq> index repo_dirty ''notes.txt''"
    by (simp add: repo_dirty_def repo_start_def)
  then have d: "\<not> status_clean repo_dirty"
    by (auto simp: status_clean_def)
  from dirty_tree_rejected [OF d, of env_gen] d show ?thesis by simp
qed

text \<open>
  Claim C7, as the code has it. After a run that exited with 0, if the working tree is
  clean and the first parent of the tracking branch's tip is the tip of the base branch
  (nothing is left to replay), a second run exits with 0, prints the no-new-commits
  message and leaves the repository, the tracking ref included, exactly as it was.
\<close>

theorem rerun_when_caught_up:
  assumes "status (driver env r0) = 0" and "r1 = repo_after (driver env r0)"
    and "status_clean r1"
    and "refs r1 tracking_ref = Some g" and "parents g = b # ps"
    and "refs r1 base_ref = Some b"
  shows "driver env' r1 =
     \<lparr>status = 0, repo_after = r1,
      echoed = [''Tracking branch gen-commits found, checking out...'',
                ''No new commits to process. All caught up.'']\<rparr>"
proof -
  from assms(1,2) have "HEAD r1 = OnBranch tracking_ref"
    by (simp add: driver_success_HEAD)
  with assms(3) show ?thesis
    using assms(4-6) by (rule driver_caught_up)
qed

theorem rerun_when_caught_up_witness:
  "status (driver env_gen run_2) = 0 \<and> status_clean run_3
   \<and> refs run_3 tracking_ref = Some gen_3 \<and> parents gen_3 = [commit_3, gen_2]
   \<and> refs run_3 base_ref = Some commit_3
   \<and> driver env_gen run_3 =
        \<lparr>status = 0, repo_after = run_3,
         echoed = [''Tracking branch gen-commits found, checking out...'',
                   ''No new commits to process. All caught up.'']\<rparr>"
proof -
  have s: "status (driver env_gen run_2) = 0"
    by (simp add: example_run_3)
  have c: "status_clean run_3" and t: "refs run_3 tracking_ref = Some gen_3"
    by (simp_all add: run_3_eq on_tracking_clean on_tracking_refs)
  have p: "parents gen_3 = commit_3 # [gen_2]"
    by (simp add: gen_3_def parents_new_generated_commit)
  have b: "refs run_3 base_ref = Some commit_3"
    by (simp add: run_3_eq run_2_eq run_1_eq on_tracking_refs repo_start_facts)
  from rerun_when_caught_up [OF s run_3_def c t p b, of env_gen] s c t p b
  show ?thesis by simp
qed

text \<open>
  Claim C7 as stated fails. With three commits on the base branch and no tracking branch,
  the first run succeeds; nothing is added to the base branch; the second run succeeds
  too, but it prints that it processed the second commit and moves the tracking branch
  from the first generated commit to a new one.
\<close>

theorem rerun_with_backlog_not_noop:
  "status (driver env_gen repo_start) = 0
   \<and> refs run_1 base_ref = refs repo_start base_ref
   \<and> status (driver env_gen run_1) = 0
   \<and> echoed (driver env_gen run_1) =
        [''Tracking branch gen-commits found, checking out...'',
         ''Processed and committed second. Tracking branch updated.'']
   \<and> refs (repo_after (driver env_gen run_1)) tracking_ref = Some gen_2
   \<and> refs run_1 tracking_ref = Some gen_1
   \<and> gen_2 \<noteq> gen_1"
proof -
  have "parents gen_2 \<noteq> parents gen_1"
    by (simp add: gen_1_def gen_2_def parents_new_generated_commit)
  then have "gen_2 \<noteq> gen_1" by auto
  moreover have "refs run_1 base_ref = refs repo_start base_ref"
    and "refs run_1 tracking_ref = Some gen_1"
    by (simp_all add: run_1_eq on_tracking_refs)
  moreover have "refs (repo_after (driver env_gen run_1)) tracking_ref = Some gen_2"
    by (simp add: example_run_2 on_tracking_refs)
  ultimately show ?thesis
    by (simp add: example_run_1 example_run_2)
qed


end
